theory Spec2Isabelle
  imports Main "HOL-Library.AList"
begin

section \<open>Python values, exceptions and computations\<close>

text \<open>
  The program is \<^verbatim>\<open>tools/unusedsymbols.py\<close>: it parses RGBDS object files and counts,
  per symbol name, the references made by the RPN expressions of the patches.

  A byte is a \<^typ>\<open>char\<close> (8 bits), a \<^verbatim>\<open>bytes\<close> value a \<^typ>\<open>string\<close>; \<open>of_char\<close> reads a
  byte as the integer that Python's indexing of a \<^verbatim>\<open>bytes\<close> object gives. A Python
  \<^verbatim>\<open>str\<close> is kept as its UTF-8 encoding, which identifies it. The integers that
  \<^verbatim>\<open>struct.unpack\<close> returns are unsigned, hence \<^typ>\<open>nat\<close>; the reference counts are
  Python integers, hence \<^typ>\<open>int\<close>.
\<close>

type_synonym bytes = string
type_synonym str = string

datatype py_error =
    StructError
  | ValueError
  | TypeError
  | UnicodeDecodeError
  | IndexError
  | KeyError
  | OSError
  | SystemExit nat

text \<open>
  A computation either does not return (\<open>None\<close>), raises (\<open>Some (Inl e)\<close>) or returns a
  value (\<open>Some (Inr x)\<close>). No exception is caught anywhere in the program, so a raised
  exception ends the run.
\<close>

type_synonym 'a comp = "(py_error + 'a) option"

abbreviation Raise :: "py_error \<Rightarrow> 'a comp" where
  "Raise e \<equiv> Some (Inl e)"

abbreviation Return :: "'a \<Rightarrow> 'a comp" where
  "Return x \<equiv> Some (Inr x)"

definition andthen :: "'a comp \<Rightarrow> ('a \<Rightarrow> 'b comp) \<Rightarrow> 'b comp" where
  "andthen m k = (case m of None \<Rightarrow> None | Some (Inl e) \<Rightarrow> Raise e | Some (Inr x) \<Rightarrow> k x)"

section \<open>Reading the file\<close>

text \<open>
  An open binary file is the list of the bytes after its cursor. \<^verbatim>\<open>file.read(sz)\<close>
  returns at most \<open>sz\<close> bytes, fewer at the end of the file, and never fails.
\<close>

definition read :: "nat \<Rightarrow> bytes \<Rightarrow> bytes \<times> bytes" where
  "read sz f = (take sz f, drop sz f)"

text \<open>\<^verbatim>\<open>struct.unpack\<close> raises \<^verbatim>\<open>struct.error\<close> unless the buffer has the size of the format.\<close>

definition unpack :: "nat \<Rightarrow> bytes \<Rightarrow> bytes comp" where
  "unpack sz b = (if length b = sz then Return b else Raise StructError)"

text \<open>\<^verbatim>\<open>unpack_file(fmt, file)\<close>, with \<open>sz = calcsize(fmt)\<close>.\<close>

definition unpack_file :: "nat \<Rightarrow> bytes \<Rightarrow> (bytes \<times> bytes) comp" where
  "unpack_file sz f =
     (case read sz f of (b, f') \<Rightarrow> andthen (unpack sz b) (\<lambda>b. Return (b, f')))"

text \<open>The fields of the little-endian formats: \<^verbatim>\<open>B\<close> is one byte, \<^verbatim>\<open>I\<close> four.\<close>

definition u8 :: "bytes \<Rightarrow> nat \<Rightarrow> nat" where
  "u8 b i = of_char (b ! i)"

definition u32 :: "bytes \<Rightarrow> nat \<Rightarrow> nat" where
  "u32 b i = of_char (b ! i) + 256 * of_char (b ! (i + 1))
     + 65536 * of_char (b ! (i + 2)) + 16777216 * of_char (b ! (i + 3))"

definition unpack_4s :: "bytes \<Rightarrow> (bytes \<times> bytes) comp" where
  "unpack_4s f = unpack_file 4 f"

definition unpack_B :: "bytes \<Rightarrow> (nat \<times> bytes) comp" where
  "unpack_B f = andthen (unpack_file 1 f) (\<lambda>(b, f'). Return (u8 b 0, f'))"

definition unpack_I :: "bytes \<Rightarrow> (nat \<times> bytes) comp" where
  "unpack_I f = andthen (unpack_file 4 f) (\<lambda>(b, f'). Return (u32 b 0, f'))"

definition unpack_II :: "bytes \<Rightarrow> ((nat \<times> nat) \<times> bytes) comp" where
  "unpack_II f = andthen (unpack_file 8 f) (\<lambda>(b, f'). Return ((u32 b 0, u32 b 4), f'))"

definition unpack_III :: "bytes \<Rightarrow> ((nat \<times> nat \<times> nat) \<times> bytes) comp" where
  "unpack_III f =
     andthen (unpack_file 12 f) (\<lambda>(b, f'). Return ((u32 b 0, u32 b 4, u32 b 8), f'))"

definition unpack_BI :: "bytes \<Rightarrow> ((nat \<times> nat) \<times> bytes) comp" where
  "unpack_BI f = andthen (unpack_file 5 f) (\<lambda>(b, f'). Return ((u8 b 0, u32 b 1), f'))"

definition unpack_IBII :: "bytes \<Rightarrow> ((nat \<times> nat \<times> nat \<times> nat) \<times> bytes) comp" where
  "unpack_IBII f =
     andthen (unpack_file 13 f)
       (\<lambda>(b, f'). Return ((u32 b 0, u8 b 4, u32 b 5, u32 b 9), f'))"

text \<open>
  \<^verbatim>\<open>buf.decode()\<close> is strict UTF-8: it raises \<^verbatim>\<open>UnicodeDecodeError\<close> on a byte sequence
  that is not well formed (overlong forms, surrogates and code points above U+10FFFF
  included).
\<close>

definition continuation :: "char \<Rightarrow> bool" where
  "continuation c = (128 \<le> (of_char c :: nat) \<and> (of_char c :: nat) \<le> 191)"

fun utf8 :: "bytes \<Rightarrow> bool" where
  "utf8 [] = True"
| "utf8 (c # cs) =
     (let b = (of_char c :: nat) in
      if b < 128 then utf8 cs
      else if 194 \<le> b \<and> b \<le> 223 then
        (case cs of c1 # r \<Rightarrow> continuation c1 \<and> utf8 r | _ \<Rightarrow> False)
      else if 224 \<le> b \<and> b \<le> 239 then
        (case cs of
           c1 # c2 # r \<Rightarrow>
             (if b = 224 then 160 \<le> (of_char c1 :: nat) \<and> (of_char c1 :: nat) \<le> 191
              else if b = 237 then 128 \<le> (of_char c1 :: nat) \<and> (of_char c1 :: nat) \<le> 159
              else continuation c1)
             \<and> continuation c2 \<and> utf8 r
         | _ \<Rightarrow> False)
      else if 240 \<le> b \<and> b \<le> 244 then
        (case cs of
           c1 # c2 # c3 # r \<Rightarrow>
             (if b = 240 then 144 \<le> (of_char c1 :: nat) \<and> (of_char c1 :: nat) \<le> 191
              else if b = 244 then 128 \<le> (of_char c1 :: nat) \<and> (of_char c1 :: nat) \<le> 143
              else continuation c1)
             \<and> continuation c2 \<and> continuation c3 \<and> utf8 r
         | _ \<Rightarrow> False)
      else False)"

definition decode :: "bytes \<Rightarrow> str comp" where
  "decode buf = (if utf8 buf then Return buf else Raise UnicodeDecodeError)"

text \<open>
  \<^verbatim>\<open>read_string\<close>: the loop \<^verbatim>\<open>while True\<close> with the buffer \<open>buf\<close> as its state. The file
  is opened with \<^verbatim>\<open>open(filename, "rb")\<close>, whose \<^verbatim>\<open>read(1)\<close> returns the empty
  \<^verbatim>\<open>bytes\<close> object at the end of the file and never \<^verbatim>\<open>None\<close>: the test
  \<^verbatim>\<open>b is None\<close> is always false, and only \<^verbatim>\<open>b == b'\0'\<close> leaves the loop.
\<close>

partial_function (option) read_string_loop :: "bytes \<Rightarrow> bytes \<Rightarrow> (str \<times> bytes) comp" where
  "read_string_loop buf f =
     (case read 1 f of
        (b, f') \<Rightarrow>
          if b = [CHR 0x00] then andthen (decode buf) (\<lambda>s. Return (s, f'))
          else read_string_loop (buf @ b) f')"

declare read_string_loop.simps [code]

definition read_string :: "bytes \<Rightarrow> (str \<times> bytes) comp" where
  "read_string f = read_string_loop [] f"

section \<open>The object file\<close>

datatype symtype = LOCAL | IMPORT | EXPORT

datatype sectype = WRAM0 | VRAM | ROMX | ROM0 | HRAM | WRAMX | SRAM | OAM

datatype patchtype = BYTE | WORD | LONG | JR

datatype asserttype = WARN | ERROR | FAIL

text \<open>Calling an \<^verbatim>\<open>Enum\<close> class on a value that is not a member raises \<^verbatim>\<open>ValueError\<close>.\<close>

definition symtype_of :: "nat \<Rightarrow> symtype comp" where
  "symtype_of v =
     (if v = 0 then Return LOCAL else if v = 1 then Return IMPORT
      else if v = 2 then Return EXPORT else Raise ValueError)"

definition sectype_of :: "nat \<Rightarrow> sectype comp" where
  "sectype_of v =
     (if v = 0 then Return WRAM0 else if v = 1 then Return VRAM
      else if v = 2 then Return ROMX else if v = 3 then Return ROM0
      else if v = 4 then Return HRAM else if v = 5 then Return WRAMX
      else if v = 6 then Return SRAM else if v = 7 then Return OAM
      else Raise ValueError)"

definition patchtype_of :: "nat \<Rightarrow> patchtype comp" where
  "patchtype_of v =
     (if v = 0 then Return BYTE else if v = 1 then Return WORD
      else if v = 2 then Return LONG else if v = 3 then Return JR
      else Raise ValueError)"

definition asserttype_of :: "nat \<Rightarrow> asserttype comp" where
  "asserttype_of v =
     (if v = 0 then Return WARN else if v = 1 then Return ERROR
      else if v = 2 then Return FAIL else Raise ValueError)"

text \<open>
  The dictionaries that \<^verbatim>\<open>parse_object\<close> builds, one record for each; a key that is set
  on some paths only is an optional field.
\<close>

record symbol =
  sym_name :: str
  sym_type :: symtype
  sym_filename :: "str option"
  sym_line_num :: "nat option"
  sym_section :: "nat option"
  sym_value :: "nat option"

record patch =
  patch_filename :: str
  patch_line :: "nat option"
  patch_offset :: nat
  patch_pcsectionid :: "nat option"
  patch_pcoffset :: "nat option"
  patch_type :: patchtype
  patch_rpn :: bytes

record sect =
  sec_name :: str
  sec_org :: nat
  sec_bank :: nat
  sec_type :: sectype
  sec_align :: nat
  sec_offset :: "nat option"
  sec_data :: "bytes option"
  sec_patches :: "patch list option"

record assertion =
  assert_filename :: str
  assert_offset :: nat
  assert_section :: "nat option"
  assert_pcoffset :: "nat option"
  assert_type :: asserttype
  assert_rpn :: bytes
  assert_message :: str

record obj =
  obj_symbols :: "symbol list"
  obj_sections :: "sect list"
  obj_version :: nat
  obj_assertions :: "assertion list option"

section \<open>\<^verbatim>\<open>parse_object\<close>\<close>

text \<open>The body of the loop over the symbols, and the loop.\<close>

definition parse_symbol :: "bytes \<Rightarrow> (symbol \<times> bytes) comp" where
  "parse_symbol f =
     andthen (read_string f) (\<lambda>(name, f).
     andthen (unpack_B f) (\<lambda>(t, f).
     andthen (symtype_of t) (\<lambda>type.
       if type \<noteq> IMPORT then
         andthen (read_string f) (\<lambda>(filename, f).
         andthen (unpack_III f) (\<lambda>((line_num, section, val), f).
           Return (\<lparr>sym_name = name, sym_type = type, sym_filename = Some filename,
                     sym_line_num = Some line_num, sym_section = Some section,
                     sym_value = Some val\<rparr>, f)))
       else
         Return (\<lparr>sym_name = name, sym_type = type, sym_filename = None,
                   sym_line_num = None, sym_section = None, sym_value = None\<rparr>, f))))"

fun parse_symbols :: "nat \<Rightarrow> bytes \<Rightarrow> (symbol list \<times> bytes) comp" where
  "parse_symbols 0 f = Return ([], f)"
| "parse_symbols (Suc n) f =
     andthen (parse_symbol f) (\<lambda>(symbol, f).
     andthen (parse_symbols n f) (\<lambda>(symbols, f).
       Return (symbol # symbols, f)))"

text \<open>
  The body of the loop over the patches of a section. \<^verbatim>\<open>file.read(rpn_size)\<close> takes the
  bytes that are there.
\<close>

definition parse_patch :: "nat \<Rightarrow> bytes \<Rightarrow> (patch \<times> bytes) comp" where
  "parse_patch obj_ver f =
     andthen (read_string f) (\<lambda>(filename, f).
     andthen (if obj_ver < 11 then andthen (unpack_I f) (\<lambda>(line, f). Return (Some line, f))
              else Return (None, f)) (\<lambda>(line, f).
     andthen (unpack_I f) (\<lambda>(offset, f).
     andthen (if obj_ver \<ge> 14 then
                andthen (unpack_II f) (\<lambda>((pcsectionid, pcoffset), f).
                  Return ((Some pcsectionid, Some pcoffset), f))
              else Return ((None, None), f)) (\<lambda>((pcsectionid, pcoffset), f).
     andthen (unpack_BI f) (\<lambda>((t, rpn_size), f).
     andthen (patchtype_of t) (\<lambda>type.
       case read rpn_size f of
         (rpn, f) \<Rightarrow>
           Return (\<lparr>patch_filename = filename, patch_line = line, patch_offset = offset,
                     patch_pcsectionid = pcsectionid, patch_pcoffset = pcoffset,
                     patch_type = type, patch_rpn = rpn\<rparr>, f)))))))"

fun parse_patches :: "nat \<Rightarrow> nat \<Rightarrow> bytes \<Rightarrow> (patch list \<times> bytes) comp" where
  "parse_patches obj_ver 0 f = Return ([], f)"
| "parse_patches obj_ver (Suc n) f =
     andthen (parse_patch obj_ver f) (\<lambda>(patch, f).
     andthen (parse_patches obj_ver n f) (\<lambda>(patches, f).
       Return (patch # patches, f)))"

text \<open>
  The body of the loop over the sections. The size of the section is a local variable:
  it is not stored, and \<^verbatim>\<open>file.read(size)\<close> takes the bytes that are there.
\<close>

definition parse_section :: "nat \<Rightarrow> bytes \<Rightarrow> (sect \<times> bytes) comp" where
  "parse_section obj_ver f =
     andthen (read_string f) (\<lambda>(name, f).
     andthen (unpack_IBII f) (\<lambda>((sz, t, org, bank), f).
     andthen (sectype_of t) (\<lambda>type.
     andthen (if obj_ver \<ge> 14 then
                andthen (unpack_BI f) (\<lambda>((align, offset), f). Return ((align, Some offset), f))
              else andthen (unpack_I f) (\<lambda>(align, f). Return ((align, None), f)))
       (\<lambda>((align, offset), f).
       if type = ROMX \<or> type = ROM0 then
         (case read sz f of
            (data, f) \<Rightarrow>
              andthen (unpack_I f) (\<lambda>(num_patches, f).
              andthen (parse_patches obj_ver num_patches f) (\<lambda>(patches, f).
                Return (\<lparr>sec_name = name, sec_org = org, sec_bank = bank, sec_type = type,
                          sec_align = align, sec_offset = offset, sec_data = Some data,
                          sec_patches = Some patches\<rparr>, f))))
       else
         Return (\<lparr>sec_name = name, sec_org = org, sec_bank = bank, sec_type = type,
                   sec_align = align, sec_offset = offset, sec_data = None,
                   sec_patches = None\<rparr>, f)))))"

fun parse_sections :: "nat \<Rightarrow> nat \<Rightarrow> bytes \<Rightarrow> (sect list \<times> bytes) comp" where
  "parse_sections obj_ver 0 f = Return ([], f)"
| "parse_sections obj_ver (Suc n) f =
     andthen (parse_section obj_ver f) (\<lambda>(section, f).
     andthen (parse_sections obj_ver n f) (\<lambda>(sections, f).
       Return (section # sections, f)))"

text \<open>
  The body of the loop over the assertions. From version 14 on, the source calls
  \<^verbatim>\<open>unpack_file("<II")\<close> with one argument where the function takes two: Python raises
  \<^verbatim>\<open>TypeError\<close> at the call, before anything is read.
\<close>

definition parse_assertion :: "nat \<Rightarrow> bytes \<Rightarrow> (assertion \<times> bytes) comp" where
  "parse_assertion obj_ver f =
     andthen (read_string f) (\<lambda>(filename, f).
     andthen (unpack_I f) (\<lambda>(offset, f).
     andthen (if obj_ver \<ge> 14 then Raise TypeError
              else Return ((None, None), f)) (\<lambda>((section, pcoffset), f).
     andthen (unpack_BI f) (\<lambda>((t, rpn_size), f).
     andthen (asserttype_of t) (\<lambda>type.
       case read rpn_size f of
         (rpn, f) \<Rightarrow>
           andthen (read_string f) (\<lambda>(message, f).
             Return (\<lparr>assert_filename = filename, assert_offset = offset,
                       assert_section = section, assert_pcoffset = pcoffset,
                       assert_type = type, assert_rpn = rpn,
                       assert_message = message\<rparr>, f)))))))"

fun parse_assertions :: "nat \<Rightarrow> nat \<Rightarrow> bytes \<Rightarrow> (assertion list \<times> bytes) comp" where
  "parse_assertions obj_ver 0 f = Return ([], f)"
| "parse_assertions obj_ver (Suc n) f =
     andthen (parse_assertion obj_ver f) (\<lambda>(assertion, f).
     andthen (parse_assertions obj_ver n f) (\<lambda>(assertions, f).
       Return (assertion # assertions, f)))"

text \<open>
  \<^verbatim>\<open>parse_object\<close> from the test of the version on. The result \<open>None\<close> is Python's
  \<^verbatim>\<open>None\<close>, returned for a format that is not known. The bytes left in the file are
  returned too, for the proofs; the program does not look at them.
\<close>

definition parse_versioned :: "nat \<Rightarrow> bytes \<Rightarrow> (obj option \<times> bytes) comp" where
  "parse_versioned obj_ver f =
     (if obj_ver \<notin> set [6, 10, 11, 13, 14] then Return (None, f)
      else
        andthen (unpack_II f) (\<lambda>((num_symbols, num_sections), f).
        andthen (parse_symbols num_symbols f) (\<lambda>(symbols, f).
        andthen (parse_sections obj_ver num_sections f) (\<lambda>(sections, f).
        andthen (if obj_ver \<ge> 13 then
                   andthen (unpack_I f) (\<lambda>(num_assertions, f).
                   andthen (parse_assertions obj_ver num_assertions f) (\<lambda>(assertions, f).
                     Return (Some assertions, f)))
                 else Return (None, f)) (\<lambda>(assertions, f).
          Return (Some \<lparr>obj_symbols = symbols, obj_sections = sections,
                         obj_version = obj_ver, obj_assertions = assertions\<rparr>, f))))))"

definition parse_bytes :: "bytes \<Rightarrow> (obj option \<times> bytes) comp" where
  "parse_bytes f =
     andthen (unpack_4s f) (\<lambda>(magic, f).
       if magic = ''RGB6'' then parse_versioned 6 f
       else if magic = ''RGB9'' then
         andthen (unpack_I f) (\<lambda>(revision, f). parse_versioned (10 + revision) f)
       else Return (None, f))"

text \<open>
  The file system maps a file name to the content of the file; \<^verbatim>\<open>open\<close> raises
  \<^verbatim>\<open>OSError\<close> for a name it cannot open.
\<close>

definition parse_object :: "(str \<Rightarrow> bytes option) \<Rightarrow> str \<Rightarrow> obj option comp" where
  "parse_object fs filename =
     (case fs filename of
        None \<Rightarrow> Raise OSError
      | Some f \<Rightarrow> andthen (parse_bytes f) (\<lambda>(ob, f). Return ob))"

section \<open>Counting the references\<close>

text \<open>
  A Python dictionary keeps its keys in the order of their insertion, and the final
  report iterates over one: a dictionary is an association list with distinct keys.
  \<^verbatim>\<open>k not in d\<close> is \<open>map_of d k = None\<close>; the assignment \<^verbatim>\<open>d[k] = v\<close> is
  \<^const>\<open>AList.update\<close>, which replaces the value of a key in place and appends a new key;
  \<^verbatim>\<open>d[k] += 1\<close> raises \<^verbatim>\<open>KeyError\<close> for a key that is not there.
\<close>

type_synonym dict = "(str \<times> int) list"

definition increment :: "dict \<Rightarrow> str \<Rightarrow> dict comp" where
  "increment d k =
     (case map_of d k of
        None \<Rightarrow> Raise KeyError
      | Some c \<Rightarrow> Return (AList.update k (c + 1) d))"

text \<open>
  The loop over the symbols of a file that enters every name with the count 0, on the
  state \<open>(localsyms, imports, exports, globalsyms)\<close>.
\<close>

definition register_symbol ::
    "symbol \<Rightarrow> dict \<times> int \<times> int \<times> dict \<Rightarrow> dict \<times> int \<times> int \<times> dict" where
  "register_symbol symbol st =
     (case st of
        (localsyms, imports, exports, globalsyms) \<Rightarrow>
          if sym_type symbol = LOCAL then
            (if map_of localsyms (sym_name symbol) = None
             then AList.update (sym_name symbol) 0 localsyms else localsyms,
             imports, exports, globalsyms)
          else if sym_type symbol = IMPORT then
            (localsyms, imports + 1, exports,
             if map_of globalsyms (sym_name symbol) = None
             then AList.update (sym_name symbol) 0 globalsyms else globalsyms)
          else if sym_type symbol = EXPORT then
            (localsyms, imports, exports + 1,
             if map_of globalsyms (sym_name symbol) = None
             then AList.update (sym_name symbol) 0 globalsyms else globalsyms)
          else st)"

fun register_symbols ::
    "symbol list \<Rightarrow> dict \<times> int \<times> int \<times> dict \<Rightarrow> dict \<times> int \<times> int \<times> dict" where
  "register_symbols [] st = st"
| "register_symbols (symbol # symbols) st = register_symbols symbols (register_symbol symbol st)"

text \<open>
  The inner loop \<^verbatim>\<open>while rpn[pos] != 0: pos += 1\<close>; indexing a \<^verbatim>\<open>bytes\<close> object past
  its end raises \<^verbatim>\<open>IndexError\<close>.
\<close>

partial_function (option) skip_string :: "bytes \<Rightarrow> nat \<Rightarrow> nat comp" where
  "skip_string rpn pos =
     (if length rpn \<le> pos then Raise IndexError
      else if (of_char (rpn ! pos) :: nat) \<noteq> 0 then skip_string rpn (pos + 1)
      else Return pos)"

declare skip_string.simps [code]

text \<open>
  The reference that the operand of \<^verbatim>\<open>0x50\<close> or \<^verbatim>\<open>0x81\<close> makes:
  \<^verbatim>\<open>obj["symbols"][symbol_id]\<close> raises \<^verbatim>\<open>IndexError\<close> past the end of the list.
\<close>

definition count_reference :: "symbol list \<Rightarrow> nat \<Rightarrow> dict \<Rightarrow> dict \<Rightarrow> (dict \<times> dict) comp" where
  "count_reference symbols symbol_id localsyms globalsyms =
     (if length symbols \<le> symbol_id then Raise IndexError
      else
        let symbol = symbols ! symbol_id in
        if sym_type symbol = LOCAL then
          andthen (increment localsyms (sym_name symbol)) (\<lambda>localsyms.
            Return (localsyms, globalsyms))
        else
          andthen (increment globalsyms (sym_name symbol)) (\<lambda>globalsyms.
            Return (localsyms, globalsyms)))"

text \<open>
  The body of the loop \<^verbatim>\<open>while pos < len(rpn)\<close>: one opcode. The slice
  \<^verbatim>\<open>rpn[pos + 1:pos + 5]\<close> is cut at the end of the buffer, and \<^verbatim>\<open>unpack("<I", ...)\<close>
  raises unless it has four bytes.
\<close>

definition rpn_step ::
    "symbol list \<Rightarrow> bytes \<Rightarrow> nat \<Rightarrow> dict \<Rightarrow> dict \<Rightarrow> (nat \<times> dict \<times> dict) comp" where
  "rpn_step symbols rpn pos localsyms globalsyms =
     (if (of_char (rpn ! pos) :: nat) = 0x51 then
        andthen (skip_string rpn (pos + 1)) (\<lambda>pos.
          Return (pos + 1, localsyms, globalsyms))
      else if (of_char (rpn ! pos) :: nat) = 0x80 then
        Return (pos + 5, localsyms, globalsyms)
      else if (of_char (rpn ! pos) :: nat) = 0x50 \<or> (of_char (rpn ! pos) :: nat) = 0x81 then
        andthen (unpack 4 (take 4 (drop (pos + 1) rpn))) (\<lambda>b.
        andthen (count_reference symbols (u32 b 0) localsyms globalsyms)
          (\<lambda>(localsyms, globalsyms).
            Return (pos + 5, localsyms, globalsyms)))
      else
        Return (pos + 1, localsyms, globalsyms))"

partial_function (option) rpn_loop ::
    "symbol list \<Rightarrow> bytes \<Rightarrow> nat \<Rightarrow> dict \<Rightarrow> dict \<Rightarrow> (nat \<times> dict \<times> dict) comp" where
  "rpn_loop symbols rpn pos localsyms globalsyms =
     (if pos < length rpn then
        (case rpn_step symbols rpn pos localsyms globalsyms of
           None \<Rightarrow> None
         | Some (Inl e) \<Rightarrow> Raise e
         | Some (Inr (pos', localsyms', globalsyms')) \<Rightarrow>
             rpn_loop symbols rpn pos' localsyms' globalsyms')
      else Return (pos, localsyms, globalsyms))"

declare rpn_loop.simps [code]

text \<open>The loops over the patches of a section and over the sections of a file.\<close>

fun patch_loop :: "symbol list \<Rightarrow> patch list \<Rightarrow> dict \<Rightarrow> dict \<Rightarrow> (dict \<times> dict) comp" where
  "patch_loop symbols [] localsyms globalsyms = Return (localsyms, globalsyms)"
| "patch_loop symbols (patch # patches) localsyms globalsyms =
     andthen (rpn_loop symbols (patch_rpn patch) 0 localsyms globalsyms)
       (\<lambda>(pos, localsyms, globalsyms). patch_loop symbols patches localsyms globalsyms)"

fun section_loop :: "symbol list \<Rightarrow> sect list \<Rightarrow> dict \<Rightarrow> dict \<Rightarrow> (dict \<times> dict) comp" where
  "section_loop symbols [] localsyms globalsyms = Return (localsyms, globalsyms)"
| "section_loop symbols (section # sections) localsyms globalsyms =
     (if sec_type section = ROMX \<or> sec_type section = ROM0 then
        (case sec_patches section of
           None \<Rightarrow> Raise KeyError
         | Some patches \<Rightarrow>
             andthen (patch_loop symbols patches localsyms globalsyms)
               (\<lambda>(localsyms, globalsyms). section_loop symbols sections localsyms globalsyms))
      else section_loop symbols sections localsyms globalsyms)"

text \<open>
  What the loop over the files does with one parsed file in analysis mode: it starts
  from an empty \<open>localsyms\<close> and from the \<open>globalsyms\<close> of the files before.
\<close>

definition count_object :: "obj \<Rightarrow> dict \<Rightarrow> (dict \<times> dict) comp" where
  "count_object ob globalsyms =
     (case register_symbols (obj_symbols ob) ([], 0, 0, globalsyms) of
        (localsyms, imports, exports, globalsyms) \<Rightarrow>
          section_loop (obj_symbols ob) (obj_sections ob) localsyms globalsyms)"

section \<open>The program\<close>

text \<open>
  The loop over the file names, on the state \<open>(globalsyms, out)\<close> where \<open>out\<close> is the
  list of the strings that \<^verbatim>\<open>print\<close> was called with for the standard output so far,
  one for each call. What is printed to the standard error is not part of the model.
  What was printed is kept when the loop raises or does not return.
\<close>

fun file_loop ::
    "bool \<Rightarrow> (str \<Rightarrow> bytes option) \<Rightarrow> str list \<Rightarrow> dict \<Rightarrow> str list \<Rightarrow> str list \<times> dict comp" where
  "file_loop just_dump fs [] globalsyms out = (out, Return globalsyms)"
| "file_loop just_dump fs (filename # filenames) globalsyms out =
     (case parse_object fs filename of
        None \<Rightarrow> (out, None)
      | Some (Inl e) \<Rightarrow> (out, Raise e)
      | Some (Inr None) \<Rightarrow> (out, Raise (SystemExit 1))
      | Some (Inr (Some ob)) \<Rightarrow>
          if just_dump then
            file_loop just_dump fs filenames globalsyms (out @ map sym_name (obj_symbols ob))
          else
            (case count_object ob globalsyms of
               None \<Rightarrow> (out, None)
             | Some (Inl e) \<Rightarrow> (out, Raise e)
             | Some (Inr (localsyms, globalsyms)) \<Rightarrow>
                 file_loop just_dump fs filenames globalsyms out))"

text \<open>The final loop, which prints the names of \<open>globalsyms\<close> whose count is 0.\<close>

definition report :: "dict \<Rightarrow> str list" where
  "report globalsyms = [symbol \<leftarrow> map fst globalsyms. map_of globalsyms symbol = Some 0]"

text \<open>
  The start of the module: the arguments. \<^verbatim>\<open>argv[argi]\<close> raises \<^verbatim>\<open>IndexError\<close> when
  \<^verbatim>\<open>-D\<close> is the last argument. The result is \<open>just_dump\<close> and the file names
  \<^verbatim>\<open>argv[argi:]\<close>.
\<close>

definition arguments :: "str list \<Rightarrow> (bool \<times> str list) comp" where
  "arguments argv =
     (if length argv \<le> 1 then Raise (SystemExit 1)
      else
        let just_dump = (argv ! 1 = ''-D'');
            argi = (if just_dump then 2 else 1)
        in
          if length argv \<le> argi then Raise IndexError
          else
            let argi = (if argv ! argi = ''--'' then argi + 1 else argi)
            in Return (just_dump, drop argi argv))"

text \<open>
  The module: the arguments, the loop over the files and the report. The result is
  the strings printed to the standard output, and how the run ends; \<^verbatim>\<open>exit()\<close> in dump mode is
  the exception \<^verbatim>\<open>SystemExit\<close> with the status 0.
\<close>

definition main :: "(str \<Rightarrow> bytes option) \<Rightarrow> str list \<Rightarrow> str list \<times> unit comp" where
  "main fs argv =
     (case arguments argv of
        None \<Rightarrow> ([], None)
      | Some (Inl e) \<Rightarrow> ([], Raise e)
      | Some (Inr (just_dump, filenames)) \<Rightarrow>
          (case file_loop just_dump fs filenames [] [] of
             (out, None) \<Rightarrow> (out, None)
           | (out, Some (Inl e)) \<Rightarrow> (out, Raise e)
           | (out, Some (Inr globalsyms)) \<Rightarrow>
               if just_dump then (out, Raise (SystemExit 0))
               else (out @ report globalsyms, Return ())))"

text \<open>
  \<^verbatim>\<open>print(s)\<close> writes the string and a newline: the text on the standard output
  after the calls of \<^verbatim>\<open>print\<close> with the strings \<open>out\<close>.
\<close>

fun written :: "str list \<Rightarrow> str" where
  "written [] = []"
| "written (s # out) = s @ CHR 0x0A # written out"

section \<open>The vocabulary of the properties\<close>

text \<open>
  The names of a symbol table that go to \<open>localsyms\<close> and those that go to \<open>globalsyms\<close>
  (the imports and the exports), in the order of the table.
\<close>

definition local_names :: "symbol list \<Rightarrow> str list" where
  "local_names symbols = map sym_name (filter (\<lambda>s. sym_type s = LOCAL) symbols)"

definition global_names :: "symbol list \<Rightarrow> str list" where
  "global_names symbols = map sym_name (filter (\<lambda>s. sym_type s \<noteq> LOCAL) symbols)"

text \<open>Entering names in a dictionary with the count 0, unless they are there.\<close>

fun ensure :: "str list \<Rightarrow> dict \<Rightarrow> dict" where
  "ensure [] d = d"
| "ensure (k # ks) d = ensure ks (if map_of d k = None then AList.update k 0 d else d)"

text \<open>
  A dictionary grows when the keys and their order stay and no count goes down; its
  counts are not negative; the count of a key is positive.
\<close>

definition grows :: "dict \<Rightarrow> dict \<Rightarrow> bool" where
  "grows d d' \<longleftrightarrow>
     map fst d' = map fst d \<and>
     (\<forall>k c. map_of d k = Some c \<longrightarrow> (\<exists>c'. map_of d' k = Some c' \<and> c \<le> c'))"

definition nonneg :: "dict \<Rightarrow> bool" where
  "nonneg d \<longleftrightarrow> (\<forall>k c. map_of d k = Some c \<longrightarrow> 0 \<le> c)"

definition positive :: "dict \<Rightarrow> str \<Rightarrow> bool" where
  "positive d k \<longleftrightarrow> (\<exists>c. map_of d k = Some c \<and> 0 < c)"

text \<open>The lines of a text: it is cut after every newline.\<close>

fun split_lines :: "str \<Rightarrow> str \<Rightarrow> str list" where
  "split_lines line [] = (if line = [] then [] else [line])"
| "split_lines line (c # cs) =
     (if c = CHR 0x0A then line # split_lines [] cs else split_lines (line @ [c]) cs)"

definition lines_of :: "str \<Rightarrow> str list" where
  "lines_of text = split_lines [] text"

text \<open>
  The scanner of the specification (section 4.3), written from its table and not from
  the code: \<open>scan_symbol_references expression cursor\<close> is the sequence of the symbol
  indices that the expression yields from the cursor on. It is \<open>None\<close> for a buffer
  that the specification leaves out, one that makes the cursor run past the end: a
  string with no zero byte, or an operand cut by the end of the buffer. \<open>terminator\<close>
  is the index of the first zero byte from an index on.
\<close>

definition terminator :: "bytes \<Rightarrow> nat \<Rightarrow> nat option" where
  "terminator expression i =
     (if CHR 0x00 \<in> set (drop i expression)
      then Some (i + length (takeWhile (\<lambda>c. c \<noteq> CHR 0x00) (drop i expression)))
      else None)"

function scan_symbol_references :: "bytes \<Rightarrow> nat \<Rightarrow> nat list option" where
  "scan_symbol_references expression cursor =
     (if length expression \<le> cursor then
        (if cursor = length expression then Some [] else None)
      else if (of_char (expression ! cursor) :: nat) = 0x51 then
        (case terminator expression (cursor + 1) of
           None \<Rightarrow> None
         | Some z \<Rightarrow> scan_symbol_references expression (z + 1))
      else if (of_char (expression ! cursor) :: nat) = 0x80 then
        scan_symbol_references expression (cursor + 5)
      else if (of_char (expression ! cursor) :: nat) = 0x50
           \<or> (of_char (expression ! cursor) :: nat) = 0x81 then
        (if length expression < cursor + 5 then None
         else map_option ((#) (u32 expression (cursor + 1)))
                (scan_symbol_references expression (cursor + 5)))
      else scan_symbol_references expression (cursor + 1))"
  by pat_completeness auto
termination
  by (relation "measure (\<lambda>(expression, cursor). length expression - cursor)")
     (auto simp: terminator_def split: if_splits)

declare scan_symbol_references.simps [simp del]

text \<open>Counting the references to a sequence of symbol indices, in order.\<close>

fun count_references ::
    "symbol list \<Rightarrow> nat list \<Rightarrow> dict \<Rightarrow> dict \<Rightarrow> (dict \<times> dict) comp" where
  "count_references symbols [] localsyms globalsyms = Return (localsyms, globalsyms)"
| "count_references symbols (i # idxs) localsyms globalsyms =
     andthen (count_reference symbols i localsyms globalsyms)
       (\<lambda>(localsyms, globalsyms). count_references symbols idxs localsyms globalsyms)"

text \<open>
  The scan on every buffer: the table of the specification, with the ends that the
  code has where the specification is silent. \<open>scan_outcome expression cursor\<close> is the
  sequence of the symbol indices yielded from the cursor on, and how the scan ends:
  at a cursor that has reached or passed the length of the buffer, with \<^verbatim>\<open>IndexError\<close>
  at a string with no zero byte, or with \<^verbatim>\<open>struct.error\<close> at an operand of \<^verbatim>\<open>0x50\<close> or
  \<^verbatim>\<open>0x81\<close> that the end of the buffer cuts. An operand of \<^verbatim>\<open>0x80\<close> that is cut takes
  the cursor past the end. \<open>finish\<close> is the end of the loop after the counting.
\<close>

function scan_outcome :: "bytes \<Rightarrow> nat \<Rightarrow> nat list \<times> (py_error + nat)" where
  "scan_outcome expression cursor =
     (if length expression \<le> cursor then ([], Inr cursor)
      else if (of_char (expression ! cursor) :: nat) = 0x51 then
        (case terminator expression (cursor + 1) of
           None \<Rightarrow> ([], Inl IndexError)
         | Some z \<Rightarrow> scan_outcome expression (z + 1))
      else if (of_char (expression ! cursor) :: nat) = 0x80 then
        scan_outcome expression (cursor + 5)
      else if (of_char (expression ! cursor) :: nat) = 0x50
           \<or> (of_char (expression ! cursor) :: nat) = 0x81 then
        (if length expression < cursor + 5 then ([], Inl StructError)
         else
           (case scan_outcome expression (cursor + 5) of
              (idxs, ending) \<Rightarrow> (u32 expression (cursor + 1) # idxs, ending)))
      else scan_outcome expression (cursor + 1))"
  by pat_completeness auto
termination
  by (relation "measure (\<lambda>(expression, cursor). length expression - cursor)")
     (auto simp: terminator_def split: if_splits)

declare scan_outcome.simps [simp del]

definition finish :: "py_error + nat \<Rightarrow> dict \<times> dict \<Rightarrow> (nat \<times> dict \<times> dict) comp" where
  "finish ending st =
     (case ending of
        Inl e \<Rightarrow> Raise e
      | Inr cursor \<Rightarrow> (case st of (localsyms, globalsyms) \<Rightarrow> Return (cursor, localsyms, globalsyms)))"

text \<open>
  A file references a global name when the expression of a patch of one of its ROMX or
  ROM0 sections yields the index of an import or an export of that name.
\<close>

definition references :: "obj \<Rightarrow> str \<Rightarrow> bool" where
  "references ob name \<longleftrightarrow>
     (\<exists>section \<in> set (obj_sections ob).
        (sec_type section = ROMX \<or> sec_type section = ROM0) \<and>
        (\<exists>patches. sec_patches section = Some patches \<and>
           (\<exists>patch \<in> set patches.
              \<exists>idxs. scan_symbol_references (patch_rpn patch) 0 = Some idxs \<and>
                (\<exists>i \<in> set idxs. i < length (obj_symbols ob) \<and>
                   sym_type (obj_symbols ob ! i) \<noteq> LOCAL \<and>
                   sym_name (obj_symbols ob ! i) = name))))"

text \<open>
  The expressions that the loop over the sections scans: for every ROMX or ROM0
  section, in order, the expressions of its patches (\<open>None\<close> when the section has no
  list of patches). \<open>scan_all\<close> and \<open>scan_sections\<close> are the loops over the patches
  and over the sections on these expressions alone.
\<close>

definition patch_expressions :: "sect list \<Rightarrow> bytes list option list" where
  "patch_expressions sections =
     map (\<lambda>section. map_option (map patch_rpn) (sec_patches section))
       (filter (\<lambda>section. sec_type section = ROMX \<or> sec_type section = ROM0) sections)"

fun scan_all :: "symbol list \<Rightarrow> bytes list \<Rightarrow> dict \<Rightarrow> dict \<Rightarrow> (dict \<times> dict) comp" where
  "scan_all symbols [] localsyms globalsyms = Return (localsyms, globalsyms)"
| "scan_all symbols (rpn # rpns) localsyms globalsyms =
     andthen (rpn_loop symbols rpn 0 localsyms globalsyms)
       (\<lambda>(pos, localsyms, globalsyms). scan_all symbols rpns localsyms globalsyms)"

fun scan_sections ::
    "symbol list \<Rightarrow> bytes list option list \<Rightarrow> dict \<Rightarrow> dict \<Rightarrow> (dict \<times> dict) comp" where
  "scan_sections symbols [] localsyms globalsyms = Return (localsyms, globalsyms)"
| "scan_sections symbols (None # rest) localsyms globalsyms = Raise KeyError"
| "scan_sections symbols (Some rpns # rest) localsyms globalsyms =
     andthen (scan_all symbols rpns localsyms globalsyms)
       (\<lambda>(localsyms, globalsyms). scan_sections symbols rest localsyms globalsyms)"

text \<open>
  The number of bytes that the records of a file take in it: a string with its zero
  byte, every fixed-width field at the size of its format, the data of a section and
  the expression of a patch or of an assertion at the length that was read. The fields
  of a patch that depend on the version are counted as the version tells. For an
  assertion the count is that of the versions before 14.
\<close>

definition symbol_bytes :: "symbol \<Rightarrow> nat" where
  "symbol_bytes s =
     length (sym_name s) + 1 + 1 +
     (case sym_filename s of None \<Rightarrow> 0 | Some filename \<Rightarrow> length filename + 1 + 12)"

definition patch_bytes :: "nat \<Rightarrow> patch \<Rightarrow> nat" where
  "patch_bytes obj_ver p =
     length (patch_filename p) + 1 + (if obj_ver < 11 then 4 else 0) + 4 +
     (if obj_ver \<ge> 14 then 8 else 0) + 5 + length (patch_rpn p)"

definition section_bytes :: "nat \<Rightarrow> sect \<Rightarrow> nat" where
  "section_bytes obj_ver s =
     length (sec_name s) + 1 + 13 + (if obj_ver \<ge> 14 then 5 else 4) +
     (case sec_data s of
        None \<Rightarrow> 0
      | Some data \<Rightarrow>
          length data + 4 +
          (case sec_patches s of
             None \<Rightarrow> 0
           | Some patches \<Rightarrow> sum_list (map (patch_bytes obj_ver) patches)))"

definition assertion_bytes :: "assertion \<Rightarrow> nat" where
  "assertion_bytes a =
     length (assert_filename a) + 1 + 4 + 5 + length (assert_rpn a) +
     length (assert_message a) + 1"

text \<open>The optional fields of a patch are there as the version tells.\<close>

definition version_gated :: "nat \<Rightarrow> patch \<Rightarrow> bool" where
  "version_gated obj_ver p \<longleftrightarrow>
     (patch_line p \<noteq> None \<longleftrightarrow> obj_ver < 11) \<and>
     (patch_pcsectionid p \<noteq> None \<longleftrightarrow> 14 \<le> obj_ver) \<and>
     (patch_pcoffset p \<noteq> None \<longleftrightarrow> 14 \<le> obj_ver)"

text \<open>The bytes of a file: the magic, the revision unless the version is 6, and the tables.\<close>

definition obj_bytes :: "obj \<Rightarrow> nat" where
  "obj_bytes ob =
     4 + (if obj_version ob = 6 then 0 else 4) + 8 +
     sum_list (map symbol_bytes (obj_symbols ob)) +
     sum_list (map (section_bytes (obj_version ob)) (obj_sections ob)) +
     (case obj_assertions ob of
        None \<Rightarrow> 0
      | Some assertions \<Rightarrow> 4 + sum_list (map assertion_bytes assertions))"

section \<open>Two object files\<close>

text \<open>
  The file \<^verbatim>\<open>a.o\<close> (version 6) imports \<^verbatim>\<open>X\<close> and \<^verbatim>\<open>Y\<close> and has no section. The file
  \<^verbatim>\<open>b.o\<close> (version 6) exports \<^verbatim>\<open>X\<close>, has the local symbol \<^verbatim>\<open>L\<close> and one ROM0 section
  with one patch, whose expression refers to \<^verbatim>\<open>X\<close> (\<^verbatim>\<open>0x50\<close>) and to \<^verbatim>\<open>L\<close> (\<^verbatim>\<open>0x81\<close>)
  and has a constant (\<^verbatim>\<open>0x80\<close>), a string (\<^verbatim>\<open>0x51\<close>) and an operator.
\<close>

definition example_rpn :: bytes where
  "example_rpn =
     [CHR 0x50, CHR 0x00, CHR 0x00, CHR 0x00, CHR 0x00,
      CHR 0x81, CHR 0x01, CHR 0x00, CHR 0x00, CHR 0x00,
      CHR 0x80, CHR 0x09, CHR 0x00, CHR 0x00, CHR 0x00,
      CHR 0x51, CHR ''L'', CHR 0x00,
      CHR 0x05]"

definition example_a :: bytes where
  "example_a =
     ''RGB6'' @ [CHR 0x02, CHR 0x00, CHR 0x00, CHR 0x00, CHR 0x00, CHR 0x00, CHR 0x00, CHR 0x00] @
     ''X'' @ [CHR 0x00, CHR 0x01] @ ''Y'' @ [CHR 0x00, CHR 0x01]"

definition example_section :: bytes where
  "example_section =
     ''sec'' @
       [CHR 0x00, CHR 0x02, CHR 0x00, CHR 0x00, CHR 0x00, CHR 0x03,
        CHR 0x00, CHR 0x00, CHR 0x00, CHR 0x00, CHR 0x00, CHR 0x00, CHR 0x00, CHR 0x00,
        CHR 0x01, CHR 0x00, CHR 0x00, CHR 0x00] @
     ''ab'' @ [CHR 0x01, CHR 0x00, CHR 0x00, CHR 0x00] @
     ''b.asm'' @
       [CHR 0x00, CHR 0x07, CHR 0x00, CHR 0x00, CHR 0x00,
        CHR 0x00, CHR 0x00, CHR 0x00, CHR 0x00,
        CHR 0x01, CHR 0x13, CHR 0x00, CHR 0x00, CHR 0x00] @
     example_rpn"

definition example_b :: bytes where
  "example_b =
     ''RGB6'' @ [CHR 0x02, CHR 0x00, CHR 0x00, CHR 0x00, CHR 0x01, CHR 0x00, CHR 0x00, CHR 0x00] @
     ''X'' @ [CHR 0x00, CHR 0x02] @ ''b.asm'' @
       [CHR 0x00, CHR 0x03, CHR 0x00, CHR 0x00, CHR 0x00,
        CHR 0x00, CHR 0x00, CHR 0x00, CHR 0x00, CHR 0x05, CHR 0x00, CHR 0x00, CHR 0x00] @
     ''L'' @ [CHR 0x00, CHR 0x00] @ ''b.asm'' @
       [CHR 0x00, CHR 0x04, CHR 0x00, CHR 0x00, CHR 0x00,
        CHR 0x00, CHR 0x00, CHR 0x00, CHR 0x00, CHR 0x07, CHR 0x00, CHR 0x00, CHR 0x00] @
     example_section"

definition example_fs :: "str \<Rightarrow> bytes option" where
  "example_fs = [''a.o'' \<mapsto> example_a, ''b.o'' \<mapsto> example_b]"

definition example_obj_a :: obj where
  "example_obj_a =
     \<lparr>obj_symbols =
        [\<lparr>sym_name = ''X'', sym_type = IMPORT, sym_filename = None, sym_line_num = None,
           sym_section = None, sym_value = None\<rparr>,
         \<lparr>sym_name = ''Y'', sym_type = IMPORT, sym_filename = None, sym_line_num = None,
           sym_section = None, sym_value = None\<rparr>],
      obj_sections = [], obj_version = 6, obj_assertions = None\<rparr>"

definition example_sect :: sect where
  "example_sect =
     \<lparr>sec_name = ''sec'', sec_org = 0, sec_bank = 0, sec_type = ROM0, sec_align = 1,
        sec_offset = None, sec_data = Some ''ab'',
        sec_patches =
          Some [\<lparr>patch_filename = ''b.asm'', patch_line = Some 7, patch_offset = 0,
                  patch_pcsectionid = None, patch_pcoffset = None, patch_type = WORD,
                  patch_rpn = example_rpn\<rparr>]\<rparr>"

definition example_obj_b :: obj where
  "example_obj_b =
     \<lparr>obj_symbols =
        [\<lparr>sym_name = ''X'', sym_type = EXPORT, sym_filename = Some ''b.asm'',
           sym_line_num = Some 3, sym_section = Some 0, sym_value = Some 5\<rparr>,
         \<lparr>sym_name = ''L'', sym_type = LOCAL, sym_filename = Some ''b.asm'',
           sym_line_num = Some 4, sym_section = Some 0, sym_value = Some 7\<rparr>],
      obj_sections =
        [example_sect],
      obj_version = 6, obj_assertions = None\<rparr>"

text \<open>
  The file \<^verbatim>\<open>n.o\<close> (version 6) has no section and exports one symbol, whose name is
  the three bytes \<^verbatim>\<open>A\<close>, newline, \<^verbatim>\<open>B\<close>.
\<close>

definition example_n :: bytes where
  "example_n =
     ''RGB6'' @ [CHR 0x01, CHR 0x00, CHR 0x00, CHR 0x00, CHR 0x00, CHR 0x00, CHR 0x00, CHR 0x00] @
     [CHR ''A'', CHR 0x0A, CHR ''B'', CHR 0x00, CHR 0x02] @ ''n.asm'' @
       [CHR 0x00, CHR 0x01, CHR 0x00, CHR 0x00, CHR 0x00,
        CHR 0x00, CHR 0x00, CHR 0x00, CHR 0x00, CHR 0x00, CHR 0x00, CHR 0x00, CHR 0x00]"

definition example_n_fs :: "str \<Rightarrow> bytes option" where
  "example_n_fs = [''n.o'' \<mapsto> example_n]"

text \<open>
  A patch as a version 14 file has it: the name \<^verbatim>\<open>p\<close>, the offset 2, the section 3 and
  the offset 4 of the program counter, the kind 0 and an expression of one byte.
\<close>

definition example_patch_14 :: bytes where
  "example_patch_14 =
     ''p'' @
       [CHR 0x00, CHR 0x02, CHR 0x00, CHR 0x00, CHR 0x00,
        CHR 0x03, CHR 0x00, CHR 0x00, CHR 0x00, CHR 0x04, CHR 0x00, CHR 0x00, CHR 0x00,
        CHR 0x00, CHR 0x01, CHR 0x00, CHR 0x00, CHR 0x00, CHR 0x05]"

text \<open>
  A version 6 file that ends in the middle of an expression: no symbol, one ROM0
  section with no data and one patch, which announces an expression of ten bytes; two
  bytes follow.
\<close>

definition example_truncated :: bytes where
  "example_truncated =
     ''RGB6'' @ [CHR 0x00, CHR 0x00, CHR 0x00, CHR 0x00, CHR 0x01, CHR 0x00, CHR 0x00, CHR 0x00] @
     ''sec'' @
       [CHR 0x00, CHR 0x00, CHR 0x00, CHR 0x00, CHR 0x00, CHR 0x03,
        CHR 0x00, CHR 0x00, CHR 0x00, CHR 0x00, CHR 0x00, CHR 0x00, CHR 0x00, CHR 0x00,
        CHR 0x01, CHR 0x00, CHR 0x00, CHR 0x00,
        CHR 0x01, CHR 0x00, CHR 0x00, CHR 0x00] @
     ''p'' @
       [CHR 0x00, CHR 0x01, CHR 0x00, CHR 0x00, CHR 0x00,
        CHR 0x00, CHR 0x00, CHR 0x00, CHR 0x00,
        CHR 0x00, CHR 0x0A, CHR 0x00, CHR 0x00, CHR 0x00] @
     ''ab''"

section \<open>Computations\<close>

lemma andthen_simps [simp]:
  "andthen None k = None"
  "andthen (Raise e) k = Raise e"
  "andthen (Return x) k = k x"
  by (simp_all add: andthen_def)

lemma andthen_Return_iff:
  "andthen m k = Return y \<longleftrightarrow> (\<exists>x. m = Return x \<and> k x = Return y)"
  by (auto simp: andthen_def split: option.splits sum.splits)

lemma andthen_cases:
  obtains "m = None" | e where "m = Raise e" | x where "m = Return x"
proof (cases m)
  case None
  then show ?thesis by (rule that(1))
next
  case (Some a)
  then show ?thesis by (cases a) (auto intro: that)
qed

section \<open>Strings\<close>

lemma read_string_loop_stop:
  "read_string_loop buf (CHR 0x00 # f) = andthen (decode buf) (\<lambda>s. Return (s, f))"
  by (subst read_string_loop.simps) (simp add: read_def)

lemma read_string_loop_more:
  "c \<noteq> CHR 0x00 \<Longrightarrow> read_string_loop buf (c # f) = read_string_loop (buf @ [c]) f"
  by (subst read_string_loop.simps) (simp add: read_def)

text \<open>The loop returns only when it has met a zero byte.\<close>

lemma read_string_loop_zero:
  "read_string_loop buf f = Some r \<Longrightarrow> CHR 0x00 \<in> set f"
proof (induction buf f r
    rule: read_string_loop.raw_induct [rotated, consumes 1, case_names step])
  case 1: (step loop buf f r)
  show ?case
  proof (cases f)
    case Nil
    with 1 show ?thesis by (fastforce simp: read_def)
  next
    case (Cons c cs)
    with 1 show ?thesis by (fastforce simp: read_def split: if_splits)
  qed
qed

lemma read_string_diverges: "CHR 0x00 \<notin> set f \<Longrightarrow> read_string f = None"
  using read_string_loop_zero [of "[]" f]
  by (cases "read_string f") (auto simp: read_string_def)

text \<open>What a string that was read has taken from the file: its bytes and the zero byte.\<close>

lemma read_string_loop_bytes:
  "read_string_loop buf f = Return (s, f') \<Longrightarrow> buf @ f = s @ CHR 0x00 # f'"
proof (induction buf f "Inr (s, f') :: py_error + str \<times> bytes"
    rule: read_string_loop.raw_induct [rotated, consumes 1, case_names step])
  case 1: (step loop buf f)
  show ?case
  proof (cases f)
    case Nil
    with 1 show ?thesis by (fastforce simp: read_def)
  next
    case (Cons c cs)
    with 1 show ?thesis
      by (fastforce simp: read_def decode_def andthen_Return_iff split: if_splits)
  qed
qed

lemma read_string_bytes: "read_string f = Return (s, f') \<Longrightarrow> f = s @ CHR 0x00 # f'"
  using read_string_loop_bytes [of "[]" f s f'] by (simp add: read_string_def)

text \<open>The equations that evaluate the parser on the bytes of a given file.\<close>

lemmas parse_defs =
  parse_bytes_def parse_versioned_def parse_symbol_def parse_section_def parse_patch_def
  parse_assertion_def unpack_4s_def unpack_B_def unpack_I_def unpack_II_def unpack_III_def
  unpack_BI_def unpack_IBII_def unpack_file_def unpack_def read_def u8_def u32_def
  read_string_def read_string_loop_stop read_string_loop_more decode_def
  symtype_of_def sectype_of_def patchtype_of_def asserttype_of_def

section \<open>Dictionaries\<close>

lemma map_of_Some_key: "map_of d k = Some c \<Longrightarrow> k \<in> fst ` set d"
  by (induction d) (auto split: if_splits)

lemma register_symbols_ensure:
  "register_symbols symbols (l, i, e, g) =
     (ensure (local_names symbols) l,
      i + int (length (filter (\<lambda>s. sym_type s = IMPORT) symbols)),
      e + int (length (filter (\<lambda>s. sym_type s = EXPORT) symbols)),
      ensure (global_names symbols) g)"
proof (induction symbols arbitrary: l i e g)
  case Nil
  show ?case by (simp add: local_names_def global_names_def)
next
  case (Cons s symbols)
  show ?case
    by (cases "sym_type s") (simp_all add: register_symbol_def Cons local_names_def global_names_def)
qed

lemma map_of_ensure:
  "map_of (ensure ks d) k = (if k \<in> set ks \<and> map_of d k = None then Some 0 else map_of d k)"
  by (induction ks arbitrary: d) (auto simp: AList.update_conv')

lemma keys_ensure_app: "ensure (ks @ ks') d = ensure ks' (ensure ks d)"
  by (induction ks arbitrary: d) auto

lemma remdups_drop_later: "x \<in> set ys \<Longrightarrow> remdups (xs @ x # ys) = remdups (xs @ ys)"
  by (induction xs) auto

lemma remdups_append_remdups: "remdups (xs @ remdups ys) = remdups (xs @ ys)"
  by (induction xs) auto

lemma keys_ensure:
  "distinct (map fst d) \<Longrightarrow> map fst (ensure ks d) = rev (remdups (rev (map fst d @ ks)))"
proof (induction ks arbitrary: d)
  case Nil
  then show ?case by (simp add: distinct_remdups_id)
next
  case (Cons k ks)
  show ?case
  proof (cases "map_of d k")
    case None
    then have "k \<notin> set (map fst d)" by (simp add: map_of_eq_None_iff)
    with None Cons show ?thesis
      by (simp add: AList.update_keys)
  next
    case (Some c)
    then have "k \<in> set (map fst d)" by (simp add: map_of_Some_key)
    then have "k \<in> set (rev (map fst d))" by simp
    from remdups_drop_later [OF this, of "rev ks"] Some Cons show ?thesis
      by simp
  qed
qed

lemma distinct_ensure: "distinct (map fst d) \<Longrightarrow> distinct (map fst (ensure ks d))"
  by (simp add: keys_ensure)

lemma nonneg_ensure: "nonneg d \<Longrightarrow> nonneg (ensure ks d)"
  by (auto simp: nonneg_def map_of_ensure split: if_splits)

lemma positive_ensure: "positive d k \<Longrightarrow> positive (ensure ks d) k"
  by (auto simp: positive_def map_of_ensure)

lemma grows_refl [simp]: "grows d d"
  by (simp add: grows_def)

lemma grows_trans: "grows d d' \<Longrightarrow> grows d' d'' \<Longrightarrow> grows d d''"
  unfolding grows_def by (fastforce intro: order_trans)

lemma grows_nonneg:
  assumes "grows d d'" and "nonneg d"
  shows "nonneg d'"
  unfolding nonneg_def
proof (intro allI impI)
  fix k c'
  assume c': "map_of d' k = Some c'"
  then have "k \<in> fst ` set d'" by (rule map_of_Some_key)
  with assms(1) have "k \<in> fst ` set d" by (metis grows_def set_map)
  then obtain c where c: "map_of d k = Some c"
    by (metis map_of_eq_None_iff not_None_eq)
  with assms(1) c' have "c \<le> c'" by (fastforce simp: grows_def)
  moreover from assms(2) c have "0 \<le> c" by (auto simp: nonneg_def)
  ultimately show "0 \<le> c'" by simp
qed

lemma grows_positive: "grows d d' \<Longrightarrow> positive d k \<Longrightarrow> positive d' k"
  unfolding grows_def positive_def by fastforce

lemma grows_distinct: "grows d d' \<Longrightarrow> distinct (map fst d) \<Longrightarrow> distinct (map fst d')"
  by (simp add: grows_def)

lemma increment_Return:
  "increment d k = Return d' \<longleftrightarrow> (\<exists>c. map_of d k = Some c \<and> d' = AList.update k (c + 1) d)"
  by (auto simp: increment_def split: option.splits)

lemma increment_grows: "increment d k = Return d' \<Longrightarrow> grows d d'"
  by (auto simp: increment_Return grows_def AList.update_keys AList.update_conv'
      dest: map_of_Some_key)

lemma increment_more:
  "increment d k = Return d' \<Longrightarrow> nonneg d \<Longrightarrow> positive d' k"
  by (auto simp: increment_Return nonneg_def positive_def AList.update_conv')

section \<open>The scan of an expression\<close>

lemma of_char_zero: "(of_char c :: nat) = 0 \<longleftrightarrow> c = CHR 0x00"
proof -
  have "(of_char c :: nat) = of_char (CHR 0x00) \<longleftrightarrow> c = CHR 0x00"
    by (rule of_char_eq_iff)
  then show ?thesis by simp
qed

lemma terminator_past: "length e \<le> i \<Longrightarrow> terminator e i = None"
  by (simp add: terminator_def)

lemma terminator_here: "i < length e \<Longrightarrow> e ! i = CHR 0x00 \<Longrightarrow> terminator e i = Some i"
  by (simp add: terminator_def Cons_nth_drop_Suc [symmetric])

lemma terminator_next:
  "i < length e \<Longrightarrow> e ! i \<noteq> CHR 0x00 \<Longrightarrow> terminator e i = terminator e (Suc i)"
  by (simp add: terminator_def Cons_nth_drop_Suc [symmetric])

lemma terminator_ge: "terminator e i = Some z \<Longrightarrow> i \<le> z"
  by (auto simp: terminator_def split: if_splits)

lemma skip_string_terminator:
  "skip_string rpn pos =
     (case terminator rpn pos of None \<Rightarrow> Raise IndexError | Some z \<Rightarrow> Return z)"
proof (induction "length rpn - pos" arbitrary: pos)
  case 0
  then show ?case
    by (subst skip_string.simps) (simp add: terminator_past)
next
  case (Suc n)
  then have lt: "pos < length rpn" by simp
  show ?case
  proof (cases "rpn ! pos = CHR 0x00")
    case True
    with lt show ?thesis
      by (subst skip_string.simps) (simp add: terminator_here)
  next
    case False
    from Suc have "n = length rpn - Suc pos" by simp
    from Suc(1) [OF this] lt False show ?thesis
      by (subst skip_string.simps) (simp add: terminator_next of_char_zero)
  qed
qed

lemma count_reference_grows:
  "count_reference symbols i l g = Return (l', g') \<Longrightarrow> grows l l' \<and> grows g g'"
  by (auto simp: count_reference_def Let_def andthen_Return_iff increment_grows split: if_splits)

lemma rpn_step_total: "\<exists>r. rpn_step symbols rpn pos l g = Some r"
  by (auto simp: rpn_step_def skip_string_terminator unpack_def count_reference_def Let_def
      increment_def andthen_def split: option.splits sum.splits)

lemma rpn_step_Return:
  assumes "rpn_step symbols rpn pos l g = Return (pos', l', g')"
  shows "pos < pos' \<and> grows l l' \<and> grows g g'"
  using assms
  by (auto simp: rpn_step_def skip_string_terminator andthen_Return_iff
      split: if_splits option.splits dest: terminator_ge count_reference_grows)

lemma rpn_loop_total: "\<exists>r. rpn_loop symbols rpn pos l g = Some r"
proof (induction "length rpn - pos" arbitrary: pos l g rule: less_induct)
  case less
  show ?case
  proof (cases "pos < length rpn")
    case False
    then show ?thesis by (subst rpn_loop.simps) simp
  next
    case True
    obtain r where r: "rpn_step symbols rpn pos l g = Some r"
      using rpn_step_total by blast
    show ?thesis
    proof (cases r)
      case (Inl e)
      with r True show ?thesis by (subst rpn_loop.simps) simp
    next
      case (Inr x)
      obtain pos' l' g' where x: "x = (pos', l', g')" by (cases x)
      with r Inr have "pos < pos'" using rpn_step_Return by blast
      with True have "length rpn - pos' < length rpn - pos" by simp
      from less [OF this] r Inr x True show ?thesis
        by (subst rpn_loop.simps) simp
    qed
  qed
qed

lemma rpn_loop_Return:
  "rpn_loop symbols rpn pos l g = Return (pos', l', g') \<Longrightarrow>
     length rpn \<le> pos' \<and> grows l l' \<and> grows g g'"
proof (induction "length rpn - pos" arbitrary: pos l g rule: less_induct)
  case less
  show ?case
  proof (cases "pos < length rpn")
    case False
    with less.prems show ?thesis by (subst (asm) rpn_loop.simps) simp
  next
    case True
    with less.prems obtain p1 l1 g1 where
      step: "rpn_step symbols rpn pos l g = Return (p1, l1, g1)" and
      rest: "rpn_loop symbols rpn p1 l1 g1 = Return (pos', l', g')"
      by (subst (asm) rpn_loop.simps) (auto split: option.splits sum.splits)
    from step have s: "pos < p1" "grows l l1" "grows g g1"
      using rpn_step_Return by blast+
    with True have "length rpn - p1 < length rpn - pos" by simp
    from less.hyps [OF this rest] s show ?thesis
      by (auto intro: grows_trans)
  qed
qed

lemma takeWhile_before: "x \<in> set xs \<Longrightarrow> length (takeWhile (\<lambda>c. c \<noteq> x) xs) < length xs"
  by (induction xs) auto

lemma terminator_inside: "terminator e i = Some z \<Longrightarrow> z < length e"
  using takeWhile_before [of "CHR 0x00" "drop i e"]
  by (auto simp: terminator_def split: if_splits)

lemma rpn_step_string:
  assumes "(of_char (rpn ! pos) :: nat) = 0x51" and "CHR 0x00 \<in> set (drop (pos + 1) rpn)"
  shows "\<exists>pos'. rpn_step symbols rpn pos l g = Return (pos', l, g)
           \<and> pos + 2 \<le> pos' \<and> pos' \<le> length rpn"
proof -
  from assms(2) obtain z where z: "terminator rpn (pos + 1) = Some z"
    by (simp add: terminator_def)
  from terminator_ge [OF z] terminator_inside [OF z] have "pos + 2 \<le> z + 1" "z + 1 \<le> length rpn"
    by simp_all
  with assms(1) z show ?thesis
    by (simp add: rpn_step_def skip_string_terminator)
qed

lemma rpn_loop_done: "length rpn \<le> pos \<Longrightarrow> rpn_loop symbols rpn pos l g = Return (pos, l, g)"
  by (subst rpn_loop.simps) simp

lemma rpn_loop_step:
  "pos < length rpn \<Longrightarrow>
   rpn_loop symbols rpn pos l g =
     andthen (rpn_step symbols rpn pos l g) (\<lambda>(pos', l', g'). rpn_loop symbols rpn pos' l' g')"
  by (subst rpn_loop.simps) (auto simp: andthen_def split: option.splits sum.splits)

lemma u32_slice:
  "i + 4 \<le> length e \<Longrightarrow> u32 (take 4 (drop i e)) 0 = u32 e i"
  by (simp add: u32_def)

lemma rpn_loop_scan:
  "scan_symbol_references rpn pos = Some idxs \<Longrightarrow>
   rpn_loop symbols rpn pos l g =
     andthen (count_references symbols idxs l g) (\<lambda>(l', g'). Return (length rpn, l', g'))"
proof (induction rpn pos arbitrary: idxs l g rule: scan_symbol_references.induct)
  case (1 rpn pos)
  note scan = "1.prems"
  show ?case
  proof (cases "length rpn \<le> pos")
    case True
    with scan have "pos = length rpn" "idxs = []"
      by (auto simp: scan_symbol_references.simps [of rpn pos] split: if_splits)
    then show ?thesis by (simp add: rpn_loop_done)
  next
    case False
    then have lt: "pos < length rpn" by simp
    consider (str) "(of_char (rpn ! pos) :: nat) = 0x51"
      | (imm) "(of_char (rpn ! pos) :: nat) = 0x80"
      | (sym) "(of_char (rpn ! pos) :: nat) = 0x50 \<or> (of_char (rpn ! pos) :: nat) = 0x81"
      | (other) "(of_char (rpn ! pos) :: nat) \<noteq> 0x51" "(of_char (rpn ! pos) :: nat) \<noteq> 0x80"
          "(of_char (rpn ! pos) :: nat) \<noteq> 0x50" "(of_char (rpn ! pos) :: nat) \<noteq> 0x81"
      by blast
    then show ?thesis
    proof cases
      case str
      with scan False obtain z where
        z: "terminator rpn (pos + 1) = Some z" and
        rest: "scan_symbol_references rpn (z + 1) = Some idxs"
        by (auto simp: scan_symbol_references.simps [of rpn pos] split: option.splits)
      from str z have "rpn_step symbols rpn pos l g = Return (z + 1, l, g)"
        by (simp add: rpn_step_def skip_string_terminator)
      with "1.IH"(1) [OF False str z rest] lt show ?thesis
        by (simp add: rpn_loop_step)
    next
      case imm
      with scan False have rest: "scan_symbol_references rpn (pos + 5) = Some idxs"
        by (auto simp: scan_symbol_references.simps [of rpn pos])
      from imm have "rpn_step symbols rpn pos l g = Return (pos + 5, l, g)"
        by (simp add: rpn_step_def)
      with "1.IH"(2) [OF False _ imm rest] imm lt show ?thesis
        by (simp add: rpn_loop_step)
    next
      case sym
      then have n: "(of_char (rpn ! pos) :: nat) \<noteq> 0x51" "(of_char (rpn ! pos) :: nat) \<noteq> 0x80"
        by auto
      with sym scan False obtain rest where
        len: "pos + 5 \<le> length rpn" and
        rest: "scan_symbol_references rpn (pos + 5) = Some rest" and
        idxs: "idxs = u32 rpn (pos + 1) # rest"
        by (auto simp: scan_symbol_references.simps [of rpn pos] split: if_splits)
      from len have b: "unpack 4 (take 4 (drop (pos + 1) rpn)) = Return (take 4 (drop (pos + 1) rpn))"
        by (simp add: unpack_def)
      from len have v: "u32 (take 4 (drop (pos + 1) rpn)) 0 = u32 rpn (pos + 1)"
        by (simp add: u32_slice)
      have step: "rpn_step symbols rpn pos l g =
          andthen (count_reference symbols (u32 rpn (pos + 1)) l g)
            (\<lambda>(l', g'). Return (pos + 5, l', g'))"
        using sym n b v by (auto simp: rpn_step_def)
      from len have nlt: "\<not> length rpn < pos + 5" by simp
      note IH = "1.IH"(3) [OF False n sym nlt rest]
      show ?thesis
      proof (cases "count_reference symbols (u32 rpn (pos + 1)) l g" rule: andthen_cases)
        case 1
        with step lt idxs show ?thesis by (simp add: rpn_loop_step)
      next
        case (2 e)
        with step lt idxs show ?thesis by (simp add: rpn_loop_step)
      next
        case (3 x)
        obtain l1 g1 where "x = (l1, g1)" by (cases x)
        with 3 step lt idxs IH [of l1 g1] show ?thesis by (simp add: rpn_loop_step)
      qed
    next
      case other
      with scan False have rest: "scan_symbol_references rpn (pos + 1) = Some idxs"
        by (auto simp: scan_symbol_references.simps [of rpn pos])
      from other have "rpn_step symbols rpn pos l g = Return (pos + 1, l, g)"
        by (simp add: rpn_step_def)
      moreover from other have "\<not> ((of_char (rpn ! pos) :: nat) = 0x50 \<or> (of_char (rpn ! pos) :: nat) = 0x81)"
        by simp
      note "1.IH"(4) [OF False other(1) other(2) this rest]
      ultimately show ?thesis using lt by (simp add: rpn_loop_step)
    qed
  qed
qed

lemma rpn_loop_outcome:
  "rpn_loop symbols rpn pos l g =
     andthen (count_references symbols (fst (scan_outcome rpn pos)) l g)
       (finish (snd (scan_outcome rpn pos)))"
proof (induction rpn pos arbitrary: l g rule: scan_outcome.induct)
  case (1 rpn pos)
  show ?case
  proof (cases "length rpn \<le> pos")
    case True
    then show ?thesis
      by (simp add: rpn_loop_done scan_outcome.simps [of rpn pos] finish_def)
  next
    case False
    then have lt: "pos < length rpn" by simp
    consider (str) "(of_char (rpn ! pos) :: nat) = 0x51"
      | (imm) "(of_char (rpn ! pos) :: nat) = 0x80"
      | (sym) "(of_char (rpn ! pos) :: nat) = 0x50 \<or> (of_char (rpn ! pos) :: nat) = 0x81"
      | (other) "(of_char (rpn ! pos) :: nat) \<noteq> 0x51" "(of_char (rpn ! pos) :: nat) \<noteq> 0x80"
          "(of_char (rpn ! pos) :: nat) \<noteq> 0x50" "(of_char (rpn ! pos) :: nat) \<noteq> 0x81"
      by blast
    then show ?thesis
    proof cases
      case str
      show ?thesis
      proof (cases "terminator rpn (pos + 1)")
        case None
        with str have "rpn_step symbols rpn pos l g = Raise IndexError"
          by (simp add: rpn_step_def skip_string_terminator)
        moreover from None str False have "scan_outcome rpn pos = ([], Inl IndexError)"
          by (simp add: scan_outcome.simps [of rpn pos])
        ultimately show ?thesis using lt by (simp add: rpn_loop_step finish_def)
      next
        case (Some z)
        with str have "rpn_step symbols rpn pos l g = Return (z + 1, l, g)"
          by (simp add: rpn_step_def skip_string_terminator)
        moreover from Some str False have "scan_outcome rpn pos = scan_outcome rpn (z + 1)"
          by (simp add: scan_outcome.simps [of rpn pos])
        ultimately show ?thesis
          using lt "1.IH"(1) [OF False str Some] by (simp add: rpn_loop_step)
      qed
    next
      case imm
      then have "rpn_step symbols rpn pos l g = Return (pos + 5, l, g)"
        by (simp add: rpn_step_def)
      moreover from imm False have "scan_outcome rpn pos = scan_outcome rpn (pos + 5)"
        by (simp add: scan_outcome.simps [of rpn pos])
      ultimately show ?thesis
        using lt "1.IH"(2) [OF False _ imm] imm by (simp add: rpn_loop_step)
    next
      case sym
      then have n: "(of_char (rpn ! pos) :: nat) \<noteq> 0x51" "(of_char (rpn ! pos) :: nat) \<noteq> 0x80"
        by auto
      show ?thesis
      proof (cases "length rpn < pos + 5")
        case True
        then have "unpack 4 (take 4 (drop (pos + 1) rpn)) = Raise StructError"
          by (auto simp: unpack_def)
        with sym n have "rpn_step symbols rpn pos l g = Raise StructError"
          by (auto simp: rpn_step_def)
        moreover from True sym n False have "scan_outcome rpn pos = ([], Inl StructError)"
          by (auto simp: scan_outcome.simps [of rpn pos])
        ultimately show ?thesis using lt by (simp add: rpn_loop_step finish_def)
      next
        case nlt: False
        then have len: "pos + 5 \<le> length rpn" by simp
        from len have b: "unpack 4 (take 4 (drop (pos + 1) rpn)) = Return (take 4 (drop (pos + 1) rpn))"
          by (simp add: unpack_def)
        from len have v: "u32 (take 4 (drop (pos + 1) rpn)) 0 = u32 rpn (pos + 1)"
          by (simp add: u32_slice)
        have step: "rpn_step symbols rpn pos l g =
            andthen (count_reference symbols (u32 rpn (pos + 1)) l g)
              (\<lambda>(l', g'). Return (pos + 5, l', g'))"
          using sym n b v by (auto simp: rpn_step_def)
        obtain idxs ending where rest: "scan_outcome rpn (pos + 5) = (idxs, ending)"
          by (cases "scan_outcome rpn (pos + 5)")
        with sym n nlt False have here: "scan_outcome rpn pos = (u32 rpn (pos + 1) # idxs, ending)"
          by (auto simp: scan_outcome.simps [of rpn pos])
        note IH = "1.IH"(3) [OF False n sym nlt]
        show ?thesis
        proof (cases "count_reference symbols (u32 rpn (pos + 1)) l g" rule: andthen_cases)
          case 1
          with step lt here show ?thesis by (simp add: rpn_loop_step)
        next
          case (2 e)
          with step lt here show ?thesis by (simp add: rpn_loop_step)
        next
          case (3 x)
          obtain l1 g1 where "x = (l1, g1)" by (cases x)
          with 3 step lt here rest IH [of l1 g1] show ?thesis by (simp add: rpn_loop_step)
        qed
      qed
    next
      case other
      then have "rpn_step symbols rpn pos l g = Return (pos + 1, l, g)"
        by (simp add: rpn_step_def)
      moreover from other False have "scan_outcome rpn pos = scan_outcome rpn (pos + 1)"
        by (simp add: scan_outcome.simps [of rpn pos])
      moreover from other have "\<not> ((of_char (rpn ! pos) :: nat) = 0x50 \<or> (of_char (rpn ! pos) :: nat) = 0x81)"
        by simp
      note "1.IH"(4) [OF False other(1) other(2) this]
      ultimately show ?thesis using lt by (simp add: rpn_loop_step)
    qed
  qed
qed

lemma scan_accepts_outcome:
  "scan_symbol_references rpn pos = Some idxs \<longleftrightarrow> scan_outcome rpn pos = (idxs, Inr (length rpn))"
proof (induction rpn pos arbitrary: idxs rule: scan_outcome.induct)
  case (1 rpn pos)
  show ?case
  proof (cases "length rpn \<le> pos")
    case True
    then show ?thesis
      by (auto simp: scan_outcome.simps [of rpn pos] scan_symbol_references.simps [of rpn pos])
  next
    case False
    consider (str) "(of_char (rpn ! pos) :: nat) = 0x51"
      | (imm) "(of_char (rpn ! pos) :: nat) = 0x80"
      | (sym) "(of_char (rpn ! pos) :: nat) = 0x50 \<or> (of_char (rpn ! pos) :: nat) = 0x81"
      | (other) "(of_char (rpn ! pos) :: nat) \<noteq> 0x51" "(of_char (rpn ! pos) :: nat) \<noteq> 0x80"
          "(of_char (rpn ! pos) :: nat) \<noteq> 0x50" "(of_char (rpn ! pos) :: nat) \<noteq> 0x81"
      by blast
    then show ?thesis
    proof cases
      case str
      show ?thesis
      proof (cases "terminator rpn (pos + 1)")
        case None
        with str False show ?thesis
          by (simp add: scan_outcome.simps [of rpn pos] scan_symbol_references.simps [of rpn pos])
      next
        case (Some z)
        with str False "1.IH"(1) [OF False str Some, of idxs] show ?thesis
          by (simp add: scan_outcome.simps [of rpn pos] scan_symbol_references.simps [of rpn pos])
      qed
    next
      case imm
      with False "1.IH"(2) [OF False _ imm, of idxs] show ?thesis
        by (simp add: scan_outcome.simps [of rpn pos] scan_symbol_references.simps [of rpn pos])
    next
      case sym
      then have n: "(of_char (rpn ! pos) :: nat) \<noteq> 0x51" "(of_char (rpn ! pos) :: nat) \<noteq> 0x80"
        by auto
      show ?thesis
      proof (cases "length rpn < pos + 5")
        case True
        with sym n False show ?thesis
          by (auto simp: scan_outcome.simps [of rpn pos] scan_symbol_references.simps [of rpn pos])
      next
        case nlt: False
        obtain rest ending where rest: "scan_outcome rpn (pos + 5) = (rest, ending)"
          by (cases "scan_outcome rpn (pos + 5)")
        note IH = "1.IH"(3) [OF False n sym nlt]
        from sym n nlt False rest IH show ?thesis
          by (auto simp: scan_outcome.simps [of rpn pos] scan_symbol_references.simps [of rpn pos])
      qed
    next
      case other
      moreover from other have "\<not> ((of_char (rpn ! pos) :: nat) = 0x50 \<or> (of_char (rpn ! pos) :: nat) = 0x81)"
        by simp
      note "1.IH"(4) [OF False other(1) other(2) this, of idxs]
      ultimately show ?thesis using False
        by (simp add: scan_outcome.simps [of rpn pos] scan_symbol_references.simps [of rpn pos])
    qed
  qed
qed

section \<open>The loops over the patches, the sections and the files\<close>

lemma count_references_grows:
  "count_references symbols idxs l g = Return (l', g') \<Longrightarrow> grows l l' \<and> grows g g'"
proof (induction idxs arbitrary: l g)
  case Nil
  then show ?case by simp
next
  case (Cons i idxs)
  then obtain l1 g1 where
    first: "count_reference symbols i l g = Return (l1, g1)" and
    rest: "count_references symbols idxs l1 g1 = Return (l', g')"
    by (auto simp: andthen_Return_iff)
  from count_reference_grows [OF first] Cons.IH [OF rest] show ?case
    by (auto intro: grows_trans)
qed

lemma count_reference_positive:
  assumes "count_reference symbols i l g = Return (l', g')"
      and "sym_type (symbols ! i) \<noteq> LOCAL" and "nonneg g"
  shows "positive g' (sym_name (symbols ! i))"
  using assms
  by (auto simp: count_reference_def Let_def andthen_Return_iff increment_more split: if_splits)

lemma count_references_positive:
  assumes "count_references symbols idxs l g = Return (l', g')"
      and "i \<in> set idxs" and "sym_type (symbols ! i) \<noteq> LOCAL" and "nonneg g"
  shows "positive g' (sym_name (symbols ! i))"
  using assms
proof (induction idxs arbitrary: l g)
  case Nil
  then show ?case by simp
next
  case (Cons j idxs)
  then obtain l1 g1 where
    first: "count_reference symbols j l g = Return (l1, g1)" and
    rest: "count_references symbols idxs l1 g1 = Return (l', g')"
    by (auto simp: andthen_Return_iff)
  show ?case
  proof (cases "i = j")
    case True
    with first Cons.prems have "positive g1 (sym_name (symbols ! i))"
      by (simp add: count_reference_positive)
    with count_references_grows [OF rest] show ?thesis
      by (auto intro: grows_positive)
  next
    case False
    with Cons.prems have "i \<in> set idxs" by simp
    moreover from count_reference_grows [OF first] Cons.prems have "nonneg g1"
      by (auto intro: grows_nonneg)
    ultimately show ?thesis using Cons.IH [OF rest] Cons.prems by simp
  qed
qed

lemma patch_loop_grows:
  "patch_loop symbols patches l g = Return (l', g') \<Longrightarrow> grows l l' \<and> grows g g'"
proof (induction patches arbitrary: l g)
  case Nil
  then show ?case by simp
next
  case (Cons p patches)
  then obtain pos l1 g1 where
    first: "rpn_loop symbols (patch_rpn p) 0 l g = Return (pos, l1, g1)" and
    rest: "patch_loop symbols patches l1 g1 = Return (l', g')"
    by (auto simp: andthen_Return_iff)
  from rpn_loop_Return [OF first] Cons.IH [OF rest] show ?case
    by (auto intro: grows_trans)
qed

lemma patch_loop_positive:
  assumes "patch_loop symbols patches l g = Return (l', g')"
      and "p \<in> set patches" and "scan_symbol_references (patch_rpn p) 0 = Some idxs"
      and "i \<in> set idxs" and "sym_type (symbols ! i) \<noteq> LOCAL" and "nonneg g"
  shows "positive g' (sym_name (symbols ! i))"
  using assms
proof (induction patches arbitrary: l g)
  case Nil
  then show ?case by simp
next
  case (Cons q patches)
  then obtain pos l1 g1 where
    first: "rpn_loop symbols (patch_rpn q) 0 l g = Return (pos, l1, g1)" and
    rest: "patch_loop symbols patches l1 g1 = Return (l', g')"
    by (auto simp: andthen_Return_iff)
  show ?case
  proof (cases "p = q")
    case True
    with first Cons.prems have "count_references symbols idxs l g = Return (l1, g1)"
      by (auto simp: rpn_loop_scan andthen_Return_iff)
    with Cons.prems have "positive g1 (sym_name (symbols ! i))"
      by (simp add: count_references_positive)
    with patch_loop_grows [OF rest] show ?thesis
      by (auto intro: grows_positive)
  next
    case False
    with Cons.prems have "p \<in> set patches" by simp
    moreover from rpn_loop_Return [OF first] Cons.prems have "nonneg g1"
      by (auto intro: grows_nonneg)
    ultimately show ?thesis using Cons.IH [OF rest] Cons.prems by simp
  qed
qed

lemma section_loop_grows:
  "section_loop symbols sections l g = Return (l', g') \<Longrightarrow> grows l l' \<and> grows g g'"
proof (induction sections arbitrary: l g)
  case Nil
  then show ?case by simp
next
  case (Cons s sections)
  show ?case
  proof (cases "sec_type s = ROMX \<or> sec_type s = ROM0")
    case False
    with Cons show ?thesis by simp
  next
    case True
    with Cons.prems obtain patches l1 g1 where
      "sec_patches s = Some patches" and
      first: "patch_loop symbols patches l g = Return (l1, g1)" and
      rest: "section_loop symbols sections l1 g1 = Return (l', g')"
      by (auto simp: andthen_Return_iff split: option.splits)
    from patch_loop_grows [OF first] Cons.IH [OF rest] show ?thesis
      by (auto intro: grows_trans)
  qed
qed

lemma section_loop_positive:
  assumes "section_loop symbols sections l g = Return (l', g')"
      and "s \<in> set sections" and "sec_type s = ROMX \<or> sec_type s = ROM0"
      and "sec_patches s = Some patches"
      and "p \<in> set patches" and "scan_symbol_references (patch_rpn p) 0 = Some idxs"
      and "i \<in> set idxs" and "sym_type (symbols ! i) \<noteq> LOCAL" and "nonneg g"
  shows "positive g' (sym_name (symbols ! i))"
  using assms
proof (induction sections arbitrary: l g)
  case Nil
  then show ?case by simp
next
  case (Cons t sections)
  show ?case
  proof (cases "s = t")
    case True
    with Cons.prems obtain l1 g1 where
      first: "patch_loop symbols patches l g = Return (l1, g1)" and
      rest: "section_loop symbols sections l1 g1 = Return (l', g')"
      by (auto simp: andthen_Return_iff)
    from first Cons.prems have "positive g1 (sym_name (symbols ! i))"
      by (simp add: patch_loop_positive)
    with section_loop_grows [OF rest] show ?thesis
      by (auto intro: grows_positive)
  next
    case False
    with Cons.prems have mem: "s \<in> set sections" by simp
    show ?thesis
    proof (cases "sec_type t = ROMX \<or> sec_type t = ROM0")
      case False
      with Cons.prems have "section_loop symbols sections l g = Return (l', g')" by simp
      from Cons.IH [OF this mem] Cons.prems show ?thesis by simp
    next
      case True
      with Cons.prems obtain ps l1 g1 where
        first: "patch_loop symbols ps l g = Return (l1, g1)" and
        rest: "section_loop symbols sections l1 g1 = Return (l', g')"
        by (auto simp: andthen_Return_iff split: option.splits)
      from patch_loop_grows [OF first] Cons.prems have "nonneg g1"
        by (auto intro: grows_nonneg)
      with Cons.IH [OF rest mem] Cons.prems show ?thesis by simp
    qed
  qed
qed

lemma count_object_Return:
  "count_object ob g = Return (l', g') \<Longrightarrow>
     grows (ensure (global_names (obj_symbols ob)) g) g'"
  by (auto simp: count_object_def register_symbols_ensure dest: section_loop_grows)

lemma count_object_positive:
  assumes "count_object ob g = Return (l', g')" and "references ob name" and "nonneg g"
  shows "positive g' name"
proof -
  let ?g = "ensure (global_names (obj_symbols ob)) g"
  from assms(1) have loop:
    "section_loop (obj_symbols ob) (obj_sections ob) (ensure (local_names (obj_symbols ob)) []) ?g
       = Return (l', g')"
    by (simp add: count_object_def register_symbols_ensure)
  from assms(3) have "nonneg ?g" by (rule nonneg_ensure)
  with assms(2) section_loop_positive [OF loop] show ?thesis
    unfolding references_def by blast
qed

lemma file_loop_analysis_Cons:
  assumes "file_loop False fs (filename # filenames) g out = (out', Return g')"
  obtains ob l1 g1 where "parse_object fs filename = Return (Some ob)"
    and "count_object ob g = Return (l1, g1)"
    and "file_loop False fs filenames g1 out = (out', Return g')"
  using assms by (auto split: option.splits sum.splits)

lemma file_loop_out:
  "file_loop False fs filenames g out = (out', Return g') \<Longrightarrow> out' = out"
proof (induction filenames arbitrary: g)
  case Nil
  then show ?case by simp
next
  case (Cons filename filenames)
  from Cons.prems show ?case
    by (rule file_loop_analysis_Cons) (rule Cons.IH)
qed

lemma file_loop_nonneg:
  "file_loop False fs filenames g out = (out', Return g') \<Longrightarrow> nonneg g \<Longrightarrow> nonneg g'"
proof (induction filenames arbitrary: g)
  case Nil
  then show ?case by simp
next
  case (Cons filename filenames)
  from Cons.prems(1) obtain ob l1 g1 where
    count: "count_object ob g = Return (l1, g1)" and
    rest: "file_loop False fs filenames g1 out = (out', Return g')"
    by (rule file_loop_analysis_Cons)
  from count_object_Return [OF count] Cons.prems(2) have "nonneg g1"
    by (auto intro: grows_nonneg nonneg_ensure)
  with rest show ?case by (rule Cons.IH)
qed

lemma file_loop_positive:
  "file_loop False fs filenames g out = (out', Return g') \<Longrightarrow> positive g name \<Longrightarrow>
     positive g' name"
proof (induction filenames arbitrary: g)
  case Nil
  then show ?case by simp
next
  case (Cons filename filenames)
  from Cons.prems(1) obtain ob l1 g1 where
    count: "count_object ob g = Return (l1, g1)" and
    rest: "file_loop False fs filenames g1 out = (out', Return g')"
    by (rule file_loop_analysis_Cons)
  from count_object_Return [OF count] Cons.prems(2) have "positive g1 name"
    by (auto intro: grows_positive positive_ensure)
  with rest show ?case by (rule Cons.IH)
qed

lemma file_loop_references:
  assumes "file_loop False fs filenames g out = (out', Return g')"
      and "filename \<in> set filenames" and "parse_object fs filename = Return (Some ob)"
      and "references ob name" and "nonneg g"
  shows "positive g' name"
  using assms(1,2,5)
proof (induction filenames arbitrary: g)
  case Nil
  then show ?case by simp
next
  case (Cons first filenames)
  from Cons.prems(1) obtain ob1 l1 g1 where
    parse: "parse_object fs first = Return (Some ob1)" and
    count: "count_object ob1 g = Return (l1, g1)" and
    rest: "file_loop False fs filenames g1 out = (out', Return g')"
    by (rule file_loop_analysis_Cons)
  show ?case
  proof (cases "filename = first")
    case True
    with parse assms(3) have "ob1 = ob" by simp
    with count assms(4) Cons.prems(3) have "positive g1 name"
      by (simp add: count_object_positive)
    with rest show ?thesis by (rule file_loop_positive)
  next
    case False
    with Cons.prems(2) have "filename \<in> set filenames" by simp
    moreover from count_object_Return [OF count] Cons.prems(3) have "nonneg g1"
      by (auto intro: grows_nonneg nonneg_ensure)
    ultimately show ?thesis using Cons.IH [OF rest] by simp
  qed
qed

lemma file_loop_keys:
  assumes "file_loop False fs filenames g out = (out', Return g')"
      and "distinct (map fst g)"
  shows "\<exists>obs. map (parse_object fs) filenames = map (\<lambda>ob. Return (Some ob)) obs \<and>
           map fst g' =
             rev (remdups (rev (map fst g @ concat (map (\<lambda>ob. global_names (obj_symbols ob)) obs))))"
  using assms
proof (induction filenames arbitrary: g)
  case Nil
  then show ?case by (simp add: distinct_remdups_id)
next
  case (Cons filename filenames)
  from Cons.prems(1) obtain ob l1 g1 where
    parse: "parse_object fs filename = Return (Some ob)" and
    count: "count_object ob g = Return (l1, g1)" and
    rest: "file_loop False fs filenames g1 out = (out', Return g')"
    by (rule file_loop_analysis_Cons)
  let ?names = "global_names (obj_symbols ob)"
  from count_object_Return [OF count] have "map fst g1 = map fst (ensure ?names g)"
    by (simp add: grows_def)
  with Cons.prems(2) have keys: "map fst g1 = rev (remdups (rev (map fst g @ ?names)))"
    by (simp add: keys_ensure)
  then have "distinct (map fst g1)" by simp
  from Cons.IH [OF rest this] obtain obs where
    obs: "map (parse_object fs) filenames = map (\<lambda>ob. Return (Some ob)) obs" and
    final: "map fst g' =
       rev (remdups (rev (map fst g1 @ concat (map (\<lambda>ob. global_names (obj_symbols ob)) obs))))"
    by blast
  from final keys have
    "map fst g' = rev (remdups (rev (map fst g @ concat (map (\<lambda>ob. global_names (obj_symbols ob)) (ob # obs)))))"
    by (simp add: remdups_append_remdups)
  with parse obs show ?case
    by (intro exI [of _ "ob # obs"]) simp
qed

lemma main_Return:
  assumes "main fs argv = (out, Return ())"
  obtains filenames g where "arguments argv = Return (False, filenames)"
    and "file_loop False fs filenames [] [] = ([], Return g)"
    and "out = report g"
proof -
  from assms obtain jd filenames out0 g where
    a: "arguments argv = Return (jd, filenames)" and
    f: "file_loop jd fs filenames [] [] = (out0, Return g)" and
    r: "\<not> jd" "out = out0 @ report g"
    by (auto simp: main_def split: option.splits sum.splits prod.splits if_splits)
  from f r(1) have "out0 = []" by (auto dest: file_loop_out)
  with a f r that show thesis by simp
qed

lemma positive_not_reported: "positive g name \<Longrightarrow> name \<notin> set (report g)"
  by (auto simp: report_def positive_def)

lemma patch_loop_scan_all:
  "patch_loop symbols patches l g = scan_all symbols (map patch_rpn patches) l g"
proof (induction patches arbitrary: l g)
  case Nil
  show ?case by simp
next
  case (Cons p patches)
  have "(\<lambda>(pos :: nat, l, g). patch_loop symbols patches l g) =
      (\<lambda>(pos, l, g). scan_all symbols (map patch_rpn patches) l g)"
    by (simp add: Cons.IH)
  then show ?case by simp
qed

lemma section_loop_scan_sections:
  "section_loop symbols sections l g = scan_sections symbols (patch_expressions sections) l g"
proof (induction sections arbitrary: l g)
  case Nil
  show ?case by (simp add: patch_expressions_def)
next
  case (Cons s sections)
  then have IH: "\<And>l g. section_loop symbols sections l g =
      scan_sections symbols (patch_expressions sections) l g" .
  have rest: "(\<lambda>(l, g). section_loop symbols sections l g) =
      (\<lambda>(l, g). scan_sections symbols (patch_expressions sections) l g)"
    by (simp add: IH)
  show ?case
  proof (cases "sec_type s = ROMX \<or> sec_type s = ROM0")
    case False
    with IH show ?thesis by (simp add: patch_expressions_def)
  next
    case True
    show ?thesis
    proof (cases "sec_patches s")
      case None
      with True show ?thesis by (simp add: patch_expressions_def)
    next
      case (Some patches)
      with True rest show ?thesis
        by (simp add: patch_expressions_def patch_loop_scan_all)
    qed
  qed
qed

lemma ensure_entered:
  assumes "k \<in> set ks" and "nonneg d"
  shows "\<exists>c. map_of (ensure ks d) k = Some c \<and> 0 \<le> c"
proof (cases "map_of d k")
  case None
  with assms(1) show ?thesis by (simp add: map_of_ensure)
next
  case (Some c)
  with assms(2) have "0 \<le> c" by (auto simp: nonneg_def)
  with Some show ?thesis by (simp add: map_of_ensure)
qed

section \<open>The lines of the output\<close>

lemma split_lines_line:
  "CHR 0x0A \<notin> set s \<Longrightarrow> split_lines line (s @ CHR 0x0A # rest) = (line @ s) # split_lines [] rest"
  by (induction s arbitrary: line) auto

lemma lines_of_written: "\<forall>s \<in> set out. CHR 0x0A \<notin> set s \<Longrightarrow> lines_of (written out) = out"
proof (induction out)
  case Nil
  show ?case by (simp add: lines_of_def)
next
  case (Cons s out)
  then have "lines_of (written out) = out" by simp
  moreover from Cons.prems have "CHR 0x0A \<notin> set s" by simp
  ultimately show ?case
    using split_lines_line [of s "[]" "written out"] by (simp add: lines_of_def)
qed

section \<open>The bytes that the parser takes\<close>

lemma read_length: "read n f = (b, f') \<Longrightarrow> length f = length b + length f'"
  by (auto simp: read_def)

lemma unpack_file_Return:
  "unpack_file n f = Return (b, f') \<Longrightarrow> length b = n \<and> length f = n + length f'"
  by (auto simp: unpack_file_def unpack_def read_def andthen_Return_iff split: if_splits)

lemma unpack_file_short: "length f < n \<Longrightarrow> unpack_file n f = Raise StructError"
  by (simp add: unpack_file_def unpack_def read_def)

lemma unpack_lengths:
  "unpack_4s f = Return (m, f') \<Longrightarrow> length f = 4 + length f'"
  "unpack_B f = Return (v1, f') \<Longrightarrow> length f = 1 + length f'"
  "unpack_I f = Return (v1, f') \<Longrightarrow> length f = 4 + length f'"
  "unpack_II f = Return (v2, f') \<Longrightarrow> length f = 8 + length f'"
  "unpack_III f = Return (v3, f') \<Longrightarrow> length f = 12 + length f'"
  "unpack_BI f = Return (v2, f') \<Longrightarrow> length f = 5 + length f'"
  "unpack_IBII f = Return (v4, f') \<Longrightarrow> length f = 13 + length f'"
  by (auto simp: unpack_4s_def unpack_B_def unpack_I_def unpack_II_def unpack_III_def
      unpack_BI_def unpack_IBII_def andthen_Return_iff dest: unpack_file_Return)

lemma read_string_length:
  "read_string f = Return (s, f') \<Longrightarrow> length f = length s + 1 + length f'"
  by (auto dest: read_string_bytes)

lemma parse_symbol_bytes:
  "parse_symbol f = Return (s, f') \<Longrightarrow> length f = symbol_bytes s + length f'"
  by (auto simp: parse_symbol_def andthen_Return_iff symbol_bytes_def split: if_splits
      dest!: read_string_length unpack_lengths)

lemma parse_symbols_bytes:
  "parse_symbols n f = Return (ss, f') \<Longrightarrow>
     length f = sum_list (map symbol_bytes ss) + length f'"
proof (induction n arbitrary: f ss)
  case 0
  then show ?case by simp
next
  case (Suc n)
  then obtain s f1 ss' where
    "parse_symbol f = Return (s, f1)" "parse_symbols n f1 = Return (ss', f')" "ss = s # ss'"
    by (auto simp: andthen_Return_iff)
  with Suc.IH [of f1 ss'] show ?case
    by (auto dest: parse_symbol_bytes)
qed

lemma patch_line_read:
  assumes "(if obj_ver < 11 then andthen (unpack_I f) (\<lambda>(line, f). Return (Some line, f))
            else Return (None, f)) = Return (line, f')"
  shows "length f = (if obj_ver < 11 then 4 else 0) + length f'"
    and "line \<noteq> None \<longleftrightarrow> obj_ver < 11"
  using assms
  by (auto simp: andthen_Return_iff split: if_splits dest: unpack_lengths)

lemma patch_pc_read:
  assumes "(if obj_ver \<ge> 14 then
              andthen (unpack_II f) (\<lambda>((pcsectionid, pcoffset), f).
                Return ((Some pcsectionid, Some pcoffset), f))
            else Return ((None, None), f)) = Return ((pcsectionid, pcoffset), f')"
  shows "length f = (if obj_ver \<ge> 14 then 8 else 0) + length f'"
    and "pcsectionid \<noteq> None \<longleftrightarrow> 14 \<le> obj_ver"
    and "pcoffset \<noteq> None \<longleftrightarrow> 14 \<le> obj_ver"
  using assms
  by (auto simp: andthen_Return_iff split: if_splits dest: unpack_lengths)

lemma parse_patch_Return:
  assumes "parse_patch obj_ver f = Return (p, f')"
  shows "length f = patch_bytes obj_ver p + length f'"
    and "patch_line p \<noteq> None \<longleftrightarrow> obj_ver < 11"
    and "patch_pcsectionid p \<noteq> None \<longleftrightarrow> 14 \<le> obj_ver"
    and "patch_pcoffset p \<noteq> None \<longleftrightarrow> 14 \<le> obj_ver"
proof -
  from assms obtain filename f1 line f2 offset f3 pcsectionid pcoffset f4 t rpn_size f5 type
    where name: "read_string f = Return (filename, f1)"
      and line: "(if obj_ver < 11 then andthen (unpack_I f1) (\<lambda>(line, f). Return (Some line, f))
            else Return (None, f1)) = Return (line, f2)"
      and offset: "unpack_I f2 = Return (offset, f3)"
      and pc: "(if obj_ver \<ge> 14 then
              andthen (unpack_II f3) (\<lambda>((pcsectionid, pcoffset), f).
                Return ((Some pcsectionid, Some pcoffset), f))
            else Return ((None, None), f3)) = Return ((pcsectionid, pcoffset), f4)"
      and kind: "unpack_BI f4 = Return ((t, rpn_size), f5)"
      and "patchtype_of t = Return type"
      and p: "p = \<lparr>patch_filename = filename, patch_line = line, patch_offset = offset,
                     patch_pcsectionid = pcsectionid, patch_pcoffset = pcoffset,
                     patch_type = type, patch_rpn = take rpn_size f5\<rparr>"
      and f': "f' = drop rpn_size f5"
    by (auto simp: parse_patch_def andthen_Return_iff read_def split: prod.splits)
  from p f' have rpn: "length f5 = length (patch_rpn p) + length f'"
    by simp
  from p have "patch_filename p = filename" by simp
  with read_string_length [OF name] patch_line_read(1) [OF line] unpack_lengths(3) [OF offset]
    patch_pc_read(1) [OF pc] unpack_lengths(6) [OF kind] rpn
  show "length f = patch_bytes obj_ver p + length f'"
    unfolding patch_bytes_def by simp
  from patch_line_read(2) [OF line] p show "patch_line p \<noteq> None \<longleftrightarrow> obj_ver < 11" by simp
  from patch_pc_read(2) [OF pc] p show "patch_pcsectionid p \<noteq> None \<longleftrightarrow> 14 \<le> obj_ver" by simp
  from patch_pc_read(3) [OF pc] p show "patch_pcoffset p \<noteq> None \<longleftrightarrow> 14 \<le> obj_ver" by simp
qed

lemma parse_patches_Return:
  "parse_patches obj_ver n f = Return (ps, f') \<Longrightarrow>
     length f = sum_list (map (patch_bytes obj_ver) ps) + length f'
     \<and> (\<forall>p \<in> set ps. version_gated obj_ver p)"
proof (induction n arbitrary: f ps)
  case 0
  then show ?case by simp
next
  case (Suc n)
  then obtain p f1 ps' where
    first: "parse_patch obj_ver f = Return (p, f1)" and
    rest: "parse_patches obj_ver n f1 = Return (ps', f')" and
    ps: "ps = p # ps'"
    by (auto simp: andthen_Return_iff)
  from parse_patch_Return [OF first] have "version_gated obj_ver p"
    and "length f = patch_bytes obj_ver p + length f1"
    by (simp_all add: version_gated_def)
  with Suc.IH [OF rest] ps show ?case by simp
qed

lemma section_align_read:
  assumes "(if obj_ver \<ge> 14 then
              andthen (unpack_BI f) (\<lambda>((align, offset), f). Return ((align, Some offset), f))
            else andthen (unpack_I f) (\<lambda>(align, f). Return ((align, None), f)))
           = Return ((align, offset), f')"
  shows "length f = (if obj_ver \<ge> 14 then 5 else 4) + length f'"
  using assms
  by (auto simp: andthen_Return_iff split: if_splits dest: unpack_lengths)

lemma unpack_IBII_size:
  assumes "unpack_IBII f = Return ((sz, t, org, bank), f')"
  shows "sz = u32 f 0"
  using assms
  by (auto simp: unpack_IBII_def unpack_file_def unpack_def read_def andthen_Return_iff u32_def
      split: if_splits)

lemma u32_after_string: "u32 (s @ c # f) (length s + 1) = u32 f 0"
  by (simp add: u32_def nth_append numeral_2_eq_2 numeral_3_eq_3)

lemma parse_section_Return:
  assumes "parse_section obj_ver f = Return (s, f')"
  shows "length f = section_bytes obj_ver s + length f'"
    and "\<forall>patches. sec_patches s = Some patches \<longrightarrow> (\<forall>p \<in> set patches. version_gated obj_ver p)"
    and "\<forall>data. sec_data s = Some data \<longrightarrow> length data = u32 f (length (sec_name s) + 1)"
proof -
  from assms obtain name f1 sz t org bank f2 type align offset f3 where
    name: "read_string f = Return (name, f1)" and
    head: "unpack_IBII f1 = Return ((sz, t, org, bank), f2)" and
    "sectype_of t = Return type" and
    align: "(if obj_ver \<ge> 14 then
              andthen (unpack_BI f2) (\<lambda>((align, offset), f). Return ((align, Some offset), f))
            else andthen (unpack_I f2) (\<lambda>(align, f). Return ((align, None), f)))
           = Return ((align, offset), f3)" and
    body: "(if type = ROMX \<or> type = ROM0 then
         (case read sz f3 of
            (data, f) \<Rightarrow>
              andthen (unpack_I f) (\<lambda>(num_patches, f).
              andthen (parse_patches obj_ver num_patches f) (\<lambda>(patches, f).
                Return (\<lparr>sec_name = name, sec_org = org, sec_bank = bank, sec_type = type,
                          sec_align = align, sec_offset = offset, sec_data = Some data,
                          sec_patches = Some patches\<rparr>, f))))
       else
         Return (\<lparr>sec_name = name, sec_org = org, sec_bank = bank, sec_type = type,
                   sec_align = align, sec_offset = offset, sec_data = None,
                   sec_patches = None\<rparr>, f3)) = Return (s, f')"
    by (auto simp: parse_section_def andthen_Return_iff)
  note len = read_string_length [OF name] unpack_lengths(7) [OF head] section_align_read [OF align]
  from read_string_bytes [OF name] unpack_IBII_size [OF head]
  have sz: "sz = u32 f (length name + 1)"
    using u32_after_string [of name "CHR 0x00" f1] by simp
  show "length f = section_bytes obj_ver s + length f'"
    and "\<forall>patches. sec_patches s = Some patches \<longrightarrow> (\<forall>p \<in> set patches. version_gated obj_ver p)"
    and "\<forall>data. sec_data s = Some data \<longrightarrow> length data = u32 f (length (sec_name s) + 1)"
  proof (atomize (full), cases "type = ROMX \<or> type = ROM0")
    case False
    with body have "s = \<lparr>sec_name = name, sec_org = org, sec_bank = bank, sec_type = type,
        sec_align = align, sec_offset = offset, sec_data = None, sec_patches = None\<rparr>"
      and "f' = f3" by auto
    with len show "length f = section_bytes obj_ver s + length f' \<and>
       (\<forall>patches. sec_patches s = Some patches \<longrightarrow> (\<forall>p \<in> set patches. version_gated obj_ver p)) \<and>
       (\<forall>data. sec_data s = Some data \<longrightarrow> length data = u32 f (length (sec_name s) + 1))"
      by (simp add: section_bytes_def)
  next
    case True
    with body obtain num_patches f5 patches where
      count: "unpack_I (drop sz f3) = Return (num_patches, f5)" and
      patches: "parse_patches obj_ver num_patches f5 = Return (patches, f')" and
      s: "s = \<lparr>sec_name = name, sec_org = org, sec_bank = bank, sec_type = type,
        sec_align = align, sec_offset = offset, sec_data = Some (take sz f3),
        sec_patches = Some patches\<rparr>"
      by (auto simp: andthen_Return_iff read_def split: prod.splits)
    from unpack_lengths(3) [OF count] have l4: "length f3 - sz = 4 + length f5" by simp
    then have full: "length (take sz f3) = sz" by simp
    from l4 have l3: "length f3 = sz + 4 + length f5" by simp
    from parse_patches_Return [OF patches]
    have l5: "length f5 = sum_list (map (patch_bytes obj_ver) patches) + length f'"
      and gated: "\<forall>p \<in> set patches. version_gated obj_ver p" by simp_all
    from len l3 l5 full s have "length f = section_bytes obj_ver s + length f'"
      by (simp add: section_bytes_def)
    with gated full sz s
    show "length f = section_bytes obj_ver s + length f' \<and>
       (\<forall>patches. sec_patches s = Some patches \<longrightarrow> (\<forall>p \<in> set patches. version_gated obj_ver p)) \<and>
       (\<forall>data. sec_data s = Some data \<longrightarrow> length data = u32 f (length (sec_name s) + 1))"
      by simp
  qed
qed

lemma parse_sections_Return:
  "parse_sections obj_ver n f = Return (ss, f') \<Longrightarrow>
     length f = sum_list (map (section_bytes obj_ver) ss) + length f'
     \<and> (\<forall>s \<in> set ss. \<forall>patches. sec_patches s = Some patches \<longrightarrow>
            (\<forall>p \<in> set patches. version_gated obj_ver p))"
proof (induction n arbitrary: f ss)
  case 0
  then show ?case by simp
next
  case (Suc n)
  then obtain s f1 ss' where
    first: "parse_section obj_ver f = Return (s, f1)" and
    rest: "parse_sections obj_ver n f1 = Return (ss', f')" and
    ss: "ss = s # ss'"
    by (auto simp: andthen_Return_iff)
  from parse_section_Return(1,2) [OF first] Suc.IH [OF rest] ss show ?case by simp
qed

lemma parse_assertion_bytes:
  assumes "parse_assertion obj_ver f = Return (a, f')"
  shows "length f = assertion_bytes a + length f'"
proof -
  from assms obtain filename f1 offset f2 t rpn_size f3 type message where
    name: "read_string f = Return (filename, f1)" and
    offset: "unpack_I f1 = Return (offset, f2)" and
    kind: "unpack_BI f2 = Return ((t, rpn_size), f3)" and
    message: "read_string (drop rpn_size f3) = Return (message, f')" and
    a: "assert_filename a = filename" "assert_rpn a = take rpn_size f3"
      "assert_message a = message"
    by (auto simp: parse_assertion_def andthen_Return_iff read_def split: if_splits)
  have "length f3 = length (take rpn_size f3) + length (drop rpn_size f3)"
    by (simp only: length_append [symmetric] append_take_drop_id)
  with read_string_length [OF name] unpack_lengths(3) [OF offset] unpack_lengths(6) [OF kind]
    read_string_length [OF message] a
  show ?thesis
    unfolding assertion_bytes_def by presburger
qed

lemma parse_assertions_bytes:
  "parse_assertions obj_ver n f = Return (as, f') \<Longrightarrow>
     length f = sum_list (map assertion_bytes as) + length f'"
proof (induction n arbitrary: f as)
  case 0
  then show ?case by simp
next
  case (Suc n)
  then obtain a f1 as' where
    first: "parse_assertion obj_ver f = Return (a, f1)" and
    rest: "parse_assertions obj_ver n f1 = Return (as', f')" and
    as: "as = a # as'"
    by (auto simp: andthen_Return_iff)
  from parse_assertion_bytes [OF first] Suc.IH [OF rest] as show ?case by simp
qed

lemma assertions_read:
  assumes "(if obj_ver \<ge> 13 then
              andthen (unpack_I f) (\<lambda>(num_assertions, f).
              andthen (parse_assertions obj_ver num_assertions f) (\<lambda>(assertions, f).
                Return (Some assertions, f)))
            else Return (None, f)) = Return (assertions, f')"
  shows "length f =
     (case assertions of None \<Rightarrow> 0 | Some as \<Rightarrow> 4 + sum_list (map assertion_bytes as))
     + length f'"
  using assms
  by (auto simp: andthen_Return_iff split: if_splits
      dest!: unpack_lengths(3) parse_assertions_bytes)

lemma parse_versioned_Return:
  assumes "parse_versioned obj_ver f = Return (Some ob, f')"
  shows "obj_version ob = obj_ver" and "obj_ver \<in> {6, 10, 11, 13, 14}"
    and "length f + 4 + (if obj_ver = 6 then 0 else 4) = obj_bytes ob + length f'"
    and "\<forall>s \<in> set (obj_sections ob). \<forall>patches. sec_patches s = Some patches \<longrightarrow>
            (\<forall>p \<in> set patches. version_gated obj_ver p)"
proof -
  from assms have ver: "obj_ver \<in> {6, 10, 11, 13, 14}"
    by (auto simp: parse_versioned_def split: if_splits)
  with assms obtain num_symbols num_sections f1 symbols f2 sections f3 assertions where
    counts: "unpack_II f = Return ((num_symbols, num_sections), f1)" and
    symbols: "parse_symbols num_symbols f1 = Return (symbols, f2)" and
    sections: "parse_sections obj_ver num_sections f2 = Return (sections, f3)" and
    assertions: "(if obj_ver \<ge> 13 then
              andthen (unpack_I f3) (\<lambda>(num_assertions, f).
              andthen (parse_assertions obj_ver num_assertions f) (\<lambda>(assertions, f).
                Return (Some assertions, f)))
            else Return (None, f3)) = Return (assertions, f')" and
    ob: "ob = \<lparr>obj_symbols = symbols, obj_sections = sections, obj_version = obj_ver,
               obj_assertions = assertions\<rparr>"
    unfolding parse_versioned_def by (auto simp: andthen_Return_iff)
  from ob show "obj_version ob = obj_ver" by simp
  from ver show "obj_ver \<in> {6, 10, 11, 13, 14}" .
  from parse_sections_Return [OF sections] ob
  show "\<forall>s \<in> set (obj_sections ob). \<forall>patches. sec_patches s = Some patches \<longrightarrow>
            (\<forall>p \<in> set patches. version_gated obj_ver p)"
    by simp
  from unpack_lengths(4) [OF counts] parse_symbols_bytes [OF symbols]
    parse_sections_Return [OF sections] assertions_read [OF assertions] ob
  show "length f + 4 + (if obj_ver = 6 then 0 else 4) = obj_bytes ob + length f'"
    by (simp add: obj_bytes_def)
qed

lemma parse_bytes_Return:
  assumes "parse_bytes f = Return (Some ob, f')"
  shows "obj_version ob \<in> {6, 10, 11, 13, 14}"
    and "length f = obj_bytes ob + length f'"
    and "\<forall>s \<in> set (obj_sections ob). \<forall>patches. sec_patches s = Some patches \<longrightarrow>
            (\<forall>p \<in> set patches. version_gated (obj_version ob) p)"
proof -
  from assms obtain magic f1 where
    magic: "unpack_4s f = Return (magic, f1)" and
    rest: "(if magic = ''RGB6'' then parse_versioned 6 f1
       else if magic = ''RGB9'' then
         andthen (unpack_I f1) (\<lambda>(revision, f). parse_versioned (10 + revision) f)
       else Return (None, f1)) = Return (Some ob, f')"
    by (auto simp: parse_bytes_def andthen_Return_iff)
  from rest consider
    (six) "parse_versioned 6 f1 = Return (Some ob, f')"
    | (nine) revision f2 where "unpack_I f1 = Return (revision, f2)"
        "parse_versioned (10 + revision) f2 = Return (Some ob, f')"
    by (auto simp: andthen_Return_iff split: if_splits)
  then show "obj_version ob \<in> {6, 10, 11, 13, 14}"
    and "length f = obj_bytes ob + length f'"
    and "\<forall>s \<in> set (obj_sections ob). \<forall>patches. sec_patches s = Some patches \<longrightarrow>
            (\<forall>p \<in> set patches. version_gated (obj_version ob) p)"
  proof (atomize (full), cases)
    case six
    from parse_versioned_Return [OF six] unpack_lengths(1) [OF magic]
    show "obj_version ob \<in> {6, 10, 11, 13, 14} \<and> length f = obj_bytes ob + length f' \<and>
      (\<forall>s \<in> set (obj_sections ob). \<forall>patches. sec_patches s = Some patches \<longrightarrow>
            (\<forall>p \<in> set patches. version_gated (obj_version ob) p))"
      by simp
  next
    case nine
    from parse_versioned_Return [OF nine(2)] unpack_lengths(1) [OF magic]
      unpack_lengths(3) [OF nine(1)]
    show "obj_version ob \<in> {6, 10, 11, 13, 14} \<and> length f = obj_bytes ob + length f' \<and>
      (\<forall>s \<in> set (obj_sections ob). \<forall>patches. sec_patches s = Some patches \<longrightarrow>
            (\<forall>p \<in> set patches. version_gated (obj_version ob) p))"
      by simp
  qed
qed

section \<open>The two object files, evaluated\<close>

lemma parse_example_a: "parse_object example_fs ''a.o'' = Return (Some example_obj_a)"
  by (simp add: parse_object_def example_fs_def example_a_def example_obj_a_def parse_defs)

lemma parse_example_b: "parse_object example_fs ''b.o'' = Return (Some example_obj_b)"
  by (simp add: parse_object_def example_fs_def example_b_def example_obj_b_def example_rpn_def
      example_section_def example_sect_def parse_defs)

lemmas count_defs =
  count_object_def register_symbol_def rpn_loop_done rpn_loop_step rpn_step_def
  skip_string_terminator terminator_def count_reference_def increment_def unpack_def u32_def

lemma register_example_b:
  "register_symbols (obj_symbols example_obj_b) ([], 0, 0, [(''X'', 0), (''Y'', 0)])
     = ([(''L'', 0)], 0, 1, [(''X'', 0), (''Y'', 0)])"
  by (simp add: example_obj_b_def register_symbol_def)

lemma scan_example_rpn: "scan_symbol_references example_rpn 0 = Some [0, 1]"
  by (simp add: example_rpn_def scan_symbol_references.simps terminator_def u32_def)

lemma rpn_loop_example:
  "rpn_loop (obj_symbols example_obj_b) example_rpn 0 [(''L'', 0)] [(''X'', 0), (''Y'', 0)]
     = Return (19, [(''L'', 1)], [(''X'', 1), (''Y'', 0)])"
  by (simp add: example_obj_b_def example_rpn_def count_defs)

lemma rpn_step_example:
  "rpn_step (obj_symbols example_obj_b) example_rpn 0 [(''L'', 0)] [(''X'', 0), (''Y'', 0)]
     = Return (5, [(''L'', 0)], [(''X'', 1), (''Y'', 0)])"
  by (simp add: example_obj_b_def example_rpn_def count_defs)

lemma rpn_step_example_string:
  "rpn_step (obj_symbols example_obj_b) example_rpn 15 [(''L'', 1)] [(''X'', 1), (''Y'', 0)]
     = Return (18, [(''L'', 1)], [(''X'', 1), (''Y'', 0)])"
  by (simp add: example_obj_b_def example_rpn_def count_defs)

lemma count_example_a:
  "count_object example_obj_a [] = Return ([], [(''X'', 0), (''Y'', 0)])"
  by (simp add: example_obj_a_def count_defs)

lemma count_example_b:
  "count_object example_obj_b [(''X'', 0), (''Y'', 0)]
     = Return ([(''L'', 1)], [(''X'', 1), (''Y'', 0)])"
  by (simp add: count_object_def register_example_b)
     (simp add: example_obj_b_def example_sect_def
        rpn_loop_example [unfolded example_obj_b_def, simplified])

lemma example_arguments:
  "arguments [''unusedsymbols.py'', ''a.o'', ''b.o''] = Return (False, [''a.o'', ''b.o''])"
  by (simp add: arguments_def)

lemma example_first_file:
  "file_loop False example_fs [''a.o''] [] [] = ([], Return [(''X'', 0), (''Y'', 0)])"
  by (simp add: parse_example_a count_example_a)

lemma example_file_loop:
  "file_loop False example_fs [''a.o'', ''b.o''] [] [] = ([], Return [(''X'', 1), (''Y'', 0)])"
  by (simp add: parse_example_a parse_example_b count_example_a count_example_b)

lemma example_run:
  "main example_fs [''unusedsymbols.py'', ''a.o'', ''b.o''] = ([''Y''], Return ())"
  by (simp add: main_def example_arguments example_file_loop report_def del: file_loop.simps)

lemma example_references: "references example_obj_b ''X''"
  by (simp add: references_def example_obj_b_def example_sect_def scan_example_rpn)

lemma example_no_reference: "\<not> references example_obj_a ''X''"
  by (simp add: references_def example_obj_a_def)

lemma parse_example_n:
  "parse_object example_n_fs ''n.o'' =
     Return (Some \<lparr>obj_symbols =
                     [\<lparr>sym_name = [CHR ''A'', CHR 0x0A, CHR ''B''], sym_type = EXPORT,
                        sym_filename = Some ''n.asm'', sym_line_num = Some 1,
                        sym_section = Some 0, sym_value = Some 0\<rparr>],
                   obj_sections = [], obj_version = 6, obj_assertions = None\<rparr>)"
  by (simp add: parse_object_def example_n_fs_def example_n_def parse_defs)

lemma example_n_file_loop:
  "file_loop False example_n_fs [''n.o''] [] [] =
     ([], Return [([CHR ''A'', CHR 0x0A, CHR ''B''], 0)])"
  by (simp add: parse_example_n count_defs)

lemma scan_outcome_example: "scan_outcome example_rpn 0 = ([0, 1], Inr 19)"
  by (simp add: example_rpn_def scan_outcome.simps terminator_def u32_def)

section \<open>The claims\<close>

text \<open>
  Claim C1, as the code has it. In analysis mode, when the run over all the files
  returns, \<^verbatim>\<open>print\<close> has been called with exactly the names of \<open>globalsyms\<close> whose
  count is 0, once for each, in the order in which the names were first met over all
  the files (the imports and exports of the symbol tables, file after file, each name
  at its first occurrence), and with no name of another count. \<^verbatim>\<open>print\<close> writes the
  name and a newline: when none of these names holds a newline, the lines of the
  output are these names, one name on a line. A run of \<open>main\<close> returns only in
  analysis mode: in dump mode it ends in \<^verbatim>\<open>exit()\<close>.
\<close>

theorem unreferenced_globals_report:
  assumes "main fs argv = (out, Return ())"
  shows "\<exists>filenames obs globalsyms.
           arguments argv = Return (False, filenames) \<and>
           map (parse_object fs) filenames = map (\<lambda>ob. Return (Some ob)) obs \<and>
           file_loop False fs filenames [] [] = ([], Return globalsyms) \<and>
           map fst globalsyms =
             rev (remdups (rev (concat (map (\<lambda>ob. global_names (obj_symbols ob)) obs)))) \<and>
           out = filter (\<lambda>name. map_of globalsyms name = Some 0) (map fst globalsyms) \<and>
           ((\<forall>name \<in> set (map fst globalsyms).
               map_of globalsyms name = Some 0 \<longrightarrow> CHR 0x0A \<notin> set name) \<longrightarrow>
            lines_of (written out) =
              filter (\<lambda>name. map_of globalsyms name = Some 0) (map fst globalsyms))"
proof -
  from assms obtain filenames g where
    a: "arguments argv = Return (False, filenames)" and
    f: "file_loop False fs filenames [] [] = ([], Return g)" and
    r: "out = report g"
    by (rule main_Return)
  from file_loop_keys [OF f] obtain obs where
    o: "map (parse_object fs) filenames = map (\<lambda>ob. Return (Some ob)) obs"
    "map fst g = rev (remdups (rev (concat (map (\<lambda>ob. global_names (obj_symbols ob)) obs))))"
    by auto
  have "lines_of (written out) = filter (\<lambda>name. map_of g name = Some 0) (map fst g)"
    if "\<forall>name \<in> set (map fst g). map_of g name = Some 0 \<longrightarrow> CHR 0x0A \<notin> set name"
  proof -
    from that r have "\<forall>s \<in> set out. CHR 0x0A \<notin> set s"
      by (auto simp: report_def)
    then have "lines_of (written out) = out" by (rule lines_of_written)
    with r show ?thesis by (simp add: report_def)
  qed
  with a f r o show ?thesis
    by (intro exI [of _ filenames] exI [of _ obs] exI [of _ g]) (simp add: report_def)
qed

theorem unreferenced_globals_report_witness:
  "main example_fs [''unusedsymbols.py'', ''a.o'', ''b.o''] = ([''Y''], Return ())
   \<and> CHR 0x0A \<notin> set ''Y''
   \<and> lines_of (written [''Y'']) = [''Y'']
   \<and> (\<exists>filenames obs globalsyms.
         arguments [''unusedsymbols.py'', ''a.o'', ''b.o''] = Return (False, filenames) \<and>
         map (parse_object example_fs) filenames = map (\<lambda>ob. Return (Some ob)) obs \<and>
         file_loop False example_fs filenames [] [] = ([], Return globalsyms) \<and>
         map fst globalsyms =
           rev (remdups (rev (concat (map (\<lambda>ob. global_names (obj_symbols ob)) obs)))) \<and>
         [''Y''] = filter (\<lambda>name. map_of globalsyms name = Some 0) (map fst globalsyms) \<and>
         lines_of (written [''Y'']) =
           filter (\<lambda>name. map_of globalsyms name = Some 0) (map fst globalsyms))"
proof -
  from unreferenced_globals_report [OF example_run] obtain filenames obs globalsyms where
    run: "arguments [''unusedsymbols.py'', ''a.o'', ''b.o''] = Return (False, filenames)"
      "map (parse_object example_fs) filenames = map (\<lambda>ob. Return (Some ob)) obs"
      "file_loop False example_fs filenames [] [] = ([], Return globalsyms)"
      "map fst globalsyms =
         rev (remdups (rev (concat (map (\<lambda>ob. global_names (obj_symbols ob)) obs))))"
      "[''Y''] = filter (\<lambda>name. map_of globalsyms name = Some 0) (map fst globalsyms)"
    by blast
  have l: "lines_of (written [''Y'']) = [''Y'']" by (simp add: lines_of_def)
  with run have "lines_of (written [''Y'']) =
      filter (\<lambda>name. map_of globalsyms name = Some 0) (map fst globalsyms)" by simp
  with run l example_run show ?thesis by auto
qed

text \<open>
  Claim C1, as it is stated, fails on a name that holds a newline, which the format
  of the file allows: for the file \<^verbatim>\<open>n.o\<close> the only key of \<open>globalsyms\<close> is the name
  \<^verbatim>\<open>A\<close>, newline, \<^verbatim>\<open>B\<close>, with the count 0, and the output has the two lines \<^verbatim>\<open>A\<close> and
  \<^verbatim>\<open>B\<close>, neither of which is a key of \<open>globalsyms\<close>.
\<close>

theorem newline_in_name_two_lines:
  "main example_n_fs [''unusedsymbols.py'', ''n.o''] = ([[CHR ''A'', CHR 0x0A, CHR ''B'']], Return ())
   \<and> file_loop False example_n_fs [''n.o''] [] [] =
       ([], Return [([CHR ''A'', CHR 0x0A, CHR ''B''], 0)])
   \<and> written [[CHR ''A'', CHR 0x0A, CHR ''B'']] = [CHR ''A'', CHR 0x0A, CHR ''B'', CHR 0x0A]
   \<and> lines_of (written [[CHR ''A'', CHR 0x0A, CHR ''B'']]) = [''A'', ''B'']
   \<and> map_of [([CHR ''A'', CHR 0x0A, CHR ''B''], 0 :: int)] ''A'' = None
   \<and> map_of [([CHR ''A'', CHR 0x0A, CHR ''B''], 0 :: int)] ''B'' = None"
  by (simp add: main_def arguments_def example_n_file_loop report_def lines_of_def
      del: file_loop.simps)

text \<open>
  Claim C2. For every file that is processed, that is for every symbol table and for
  the \<open>globalsyms\<close> that the files before have left, after the loop that registers the
  symbols every name of the table is a key of \<open>localsyms\<close> if the symbol is local, and of
  \<open>globalsyms\<close> if it is an import or an export, with a count that is not negative,
  whether an expression refers to it or not.
\<close>

theorem every_symbol_registered:
  assumes "file_loop False fs filenames [] [] = (out, Return globalsyms)"
      and "register_symbols symbols ([], 0, 0, globalsyms)
             = (localsyms', imports, exports, globalsyms')"
      and "symbol \<in> set symbols"
  shows "(sym_type symbol = LOCAL \<longrightarrow>
            (\<exists>c. map_of localsyms' (sym_name symbol) = Some c \<and> 0 \<le> c))
       \<and> (sym_type symbol = IMPORT \<or> sym_type symbol = EXPORT \<longrightarrow>
            (\<exists>c. map_of globalsyms' (sym_name symbol) = Some c \<and> 0 \<le> c))"
proof -
  from assms(1) have g: "nonneg globalsyms"
    by (rule file_loop_nonneg) (simp add: nonneg_def)
  have l: "nonneg []" by (simp add: nonneg_def)
  from assms(2) have eq: "localsyms' = ensure (local_names symbols) []"
      "globalsyms' = ensure (global_names symbols) globalsyms"
    by (simp_all add: register_symbols_ensure)
  have "sym_name symbol \<in> set (local_names symbols)" if "sym_type symbol = LOCAL"
    using that assms(3) by (auto simp: local_names_def)
  moreover have "sym_name symbol \<in> set (global_names symbols)"
    if "sym_type symbol = IMPORT \<or> sym_type symbol = EXPORT"
    using that assms(3) by (auto simp: global_names_def)
  ultimately show ?thesis
    unfolding eq using ensure_entered [OF _ l] ensure_entered [OF _ g] by blast
qed

theorem every_symbol_registered_witness:
  "file_loop False example_fs [''a.o''] [] [] = ([], Return [(''X'', 0), (''Y'', 0)])
   \<and> register_symbols (obj_symbols example_obj_b) ([], 0, 0, [(''X'', 0), (''Y'', 0)])
       = ([(''L'', 0)], 0, 1, [(''X'', 0), (''Y'', 0)])
   \<and> (\<exists>c. map_of [(''L'', 0::int)] ''L'' = Some c \<and> 0 \<le> c)
   \<and> (\<exists>c. map_of [(''X'', 0::int), (''Y'', 0)] ''X'' = Some c \<and> 0 \<le> c)"
proof -
  have x: "obj_symbols example_obj_b ! 0 \<in> set (obj_symbols example_obj_b)"
    and l: "obj_symbols example_obj_b ! 1 \<in> set (obj_symbols example_obj_b)"
    by (simp_all add: example_obj_b_def)
  from every_symbol_registered [OF example_first_file register_example_b l]
  have "\<exists>c. map_of [(''L'', 0::int)] ''L'' = Some c \<and> 0 \<le> c"
    by (simp add: example_obj_b_def)
  moreover from every_symbol_registered [OF example_first_file register_example_b x]
  have "\<exists>c. map_of [(''X'', 0::int), (''Y'', 0)] ''X'' = Some c \<and> 0 \<le> c"
    by (simp add: example_obj_b_def)
  ultimately show ?thesis
    using example_first_file register_example_b by blast
qed

text \<open>
  Claim C3, as the code has it. On every buffer the scan is one pass from left to
  right that follows the table of the specification: \<^verbatim>\<open>0x51\<close> skips a string and its
  zero byte, \<^verbatim>\<open>0x80\<close> skips five bytes, \<^verbatim>\<open>0x50\<close> and \<^verbatim>\<open>0x81\<close> yield the little-endian
  32-bit index that follows and skip five bytes, any other byte is skipped alone. What
  the loop of the code does to the counts is what counting the yielded indices one
  after the other does (the exception of a count included), and it ends as
  \<open>scan_outcome\<close> tells: with the cursor at or past the length of the buffer, with
  \<^verbatim>\<open>IndexError\<close> at a string that has no zero byte, with \<^verbatim>\<open>struct.error\<close> at an operand
  of \<^verbatim>\<open>0x50\<close> or \<^verbatim>\<open>0x81\<close> that is cut. The buffers that the scanner of the
  specification accepts (every string ended, every operand whole) are those on which
  the scan ends with the cursor at the length of the buffer, and on them the loop
  returns with the cursor there, having counted exactly the indices that the scanner
  of the specification yields, in order.
\<close>

theorem rpn_loop_yields_references:
  "rpn_loop symbols rpn pos localsyms globalsyms =
     andthen (count_references symbols (fst (scan_outcome rpn pos)) localsyms globalsyms)
       (finish (snd (scan_outcome rpn pos)))
   \<and> (scan_symbol_references rpn pos = Some idxs \<longleftrightarrow>
        scan_outcome rpn pos = (idxs, Inr (length rpn)))
   \<and> (scan_symbol_references rpn pos = Some idxs \<longrightarrow>
        rpn_loop symbols rpn pos localsyms globalsyms =
          andthen (count_references symbols idxs localsyms globalsyms)
            (\<lambda>(localsyms', globalsyms'). Return (length rpn, localsyms', globalsyms')))"
  using rpn_loop_outcome [of symbols rpn pos localsyms globalsyms]
    scan_accepts_outcome [of rpn pos idxs] rpn_loop_scan [of rpn pos idxs symbols localsyms globalsyms]
  by blast

theorem rpn_loop_yields_references_witness:
  "scan_symbol_references example_rpn 0 = Some [0, 1]
   \<and> scan_outcome example_rpn 0 = ([0, 1], Inr (length example_rpn))
   \<and> rpn_loop (obj_symbols example_obj_b) example_rpn 0 [(''L'', 0)] [(''X'', 0), (''Y'', 0)]
       = Return (length example_rpn, [(''L'', 1)], [(''X'', 1), (''Y'', 0)])"
  using rpn_loop_yields_references [of "obj_symbols example_obj_b" example_rpn 0
      "[(''L'', 0)]" "[(''X'', 0), (''Y'', 0)]" "[0, 1]"]
  by (simp add: scan_example_rpn)
     (simp add: example_obj_b_def count_reference_def increment_def finish_def)

text \<open>
  Claim C3, as it is stated for every buffer, fails on the buffers whose last operand
  is cut: at \<^verbatim>\<open>0x50\<close> with one byte after it the loop raises \<^verbatim>\<open>struct.error\<close> and yields
  nothing, at \<^verbatim>\<open>0x51\<close> with no zero byte after it the loop raises \<^verbatim>\<open>IndexError\<close>, and
  at \<^verbatim>\<open>0x80\<close> with nothing after it the loop returns with the cursor at 5, past the
  length 1 of the buffer.
\<close>

theorem cut_operand_counterexample:
  "rpn_loop [] [CHR 0x50, CHR 0x01] 0 [] [] = Raise StructError
   \<and> rpn_loop [] [CHR 0x51, CHR 0x41] 0 [] [] = Raise IndexError
   \<and> rpn_loop [] [CHR 0x80] 0 [] [] = Return (5, [], [])
   \<and> length [CHR 0x80] = 1"
  by (simp add: count_defs)

text \<open>
  Claim C4. \<^verbatim>\<open>read_string\<close> is to fail when the file ends before the zero byte that
  ends the string. The code does not: at the end of the file \<^verbatim>\<open>read(1)\<close> returns
  \<^verbatim>\<open>b''\<close>, which is neither \<^verbatim>\<open>None\<close> nor \<^verbatim>\<open>b'\0'\<close>, and the loop goes on for ever.
  On the two bytes \<^verbatim>\<open>ab\<close> the function does not return, and neither does the parse of a
  version 6 file that announces one symbol and ends in the name of the symbol.
\<close>

theorem read_string_unterminated:
  "read_string ''ab'' = None
   \<and> parse_bytes (''RGB6'' @ [CHR 0x01, CHR 0x00, CHR 0x00, CHR 0x00,
                               CHR 0x00, CHR 0x00, CHR 0x00, CHR 0x00] @ ''ab'') = None"
  by (simp add: read_string_diverges parse_bytes_def unpack_4s_def unpack_file_def unpack_def
      read_def parse_versioned_def unpack_II_def u32_def parse_symbol_def)

text \<open>
  Claim C5, as the code has it. A short read of a fixed-width field, that is a call of
  \<^verbatim>\<open>unpack_file\<close> with fewer bytes left than the size of the format, raises
  \<^verbatim>\<open>struct.error\<close>, and nothing catches it: when the parse of a file returns an object,
  the bytes it has taken are exactly the fields of that object, every fixed-width
  field at its full size. The data of a ROMX or ROM0 section that a parse returns has
  the size that the file announces, since the count of the patches is read after it.
  \<^verbatim>\<open>file.read\<close> itself does not fail on a short read, and the expression of a patch
  is the bytes that are left.
\<close>

theorem fixed_width_short_read_fails:
  "(length f < n \<longrightarrow> unpack_file n f = Raise StructError)
   \<and> (parse_bytes content = Return (Some ob, rest) \<longrightarrow>
        length content = obj_bytes ob + length rest)
   \<and> (parse_section obj_ver g = Return (s, g') \<longrightarrow>
        (\<forall>data. sec_data s = Some data \<longrightarrow> length data = u32 g (length (sec_name s) + 1)))"
  using unpack_file_short [of f n] parse_bytes_Return(2) [of content ob rest]
    parse_section_Return(3) [of obj_ver g s g']
  by blast

lemma parse_example_section: "parse_section 6 example_section = Return (example_sect, [])"
  by (simp add: example_section_def example_sect_def example_rpn_def parse_defs)

lemma parse_bytes_example_b: "parse_bytes example_b = Return (Some example_obj_b, [])"
  by (simp add: example_b_def example_obj_b_def example_rpn_def example_section_def
      example_sect_def parse_defs)

theorem fixed_width_short_read_fails_witness:
  "length ''ab'' < 4 \<and> unpack_file 4 ''ab'' = Raise StructError
   \<and> parse_bytes example_b = Return (Some example_obj_b, [])
   \<and> length example_b = obj_bytes example_obj_b + length ([] :: bytes)
   \<and> parse_section 6 example_section = Return (example_sect, [])
   \<and> sec_data example_sect = Some ''ab''
   \<and> length ''ab'' = u32 example_section (length (sec_name example_sect) + 1)"
  using fixed_width_short_read_fails
    [of "''ab''" 4 example_b example_obj_b "[]" 6 example_section example_sect "[]"]
  by (simp add: parse_example_section parse_bytes_example_b) (simp add: example_sect_def)

text \<open>
  Claim C5, as it is stated, fails on the file that ends in the middle of an
  expression: where the patch announces ten bytes two are left, \<^verbatim>\<open>file.read(10)\<close>
  returns the two, and the parse returns an object whose expression has two bytes.
\<close>

theorem short_expression_read_returns:
  "unpack_BI (drop 47 example_truncated) = Return ((0, 10), ''ab'')
   \<and> read 10 ''ab'' = (''ab'', [])
   \<and> parse_bytes example_truncated =
       Return
         (Some \<lparr>obj_symbols = [],
                 obj_sections =
                   [\<lparr>sec_name = ''sec'', sec_org = 0, sec_bank = 0, sec_type = ROM0,
                      sec_align = 1, sec_offset = None, sec_data = Some [],
                      sec_patches =
                        Some [\<lparr>patch_filename = ''p'', patch_line = Some 1, patch_offset = 0,
                                patch_pcsectionid = None, patch_pcoffset = None,
                                patch_type = BYTE, patch_rpn = ''ab''\<rparr>]\<rparr>],
                 obj_version = 6, obj_assertions = None\<rparr>,
          [])"
  by (simp add: example_truncated_def parse_defs)

text \<open>
  Claim C6. For a file of version 14 the parser is to read the section and the offset
  of every assertion as two 32-bit integers. The code calls \<^verbatim>\<open>unpack_file("<II")\<close>
  without the file, and the call raises \<^verbatim>\<open>TypeError\<close>: the parse of a version 14 file
  with no symbol, no section and one complete assertion (its name \<^verbatim>\<open>a.asm\<close>, its offset
  7, eight bytes for the section and the offset, the kind 1, an empty expression and
  the message \<^verbatim>\<open>m\<close>) ends in that exception.
\<close>

theorem assertion_v14_type_error:
  "parse_bytes (''RGB9'' @ [CHR 0x04, CHR 0x00, CHR 0x00, CHR 0x00,
       CHR 0x00, CHR 0x00, CHR 0x00, CHR 0x00,  CHR 0x00, CHR 0x00, CHR 0x00, CHR 0x00,
       CHR 0x01, CHR 0x00, CHR 0x00, CHR 0x00] @ ''a.asm'' @
      [CHR 0x00, CHR 0x07, CHR 0x00, CHR 0x00, CHR 0x00,
       CHR 0x00, CHR 0x00, CHR 0x00, CHR 0x00,  CHR 0x00, CHR 0x00, CHR 0x00, CHR 0x00,
       CHR 0x01, CHR 0x00, CHR 0x00, CHR 0x00, CHR 0x00] @ ''m'' @ [CHR 0x00])
   = Raise TypeError"
  by (simp add: parse_defs)

text \<open>
  Claim C7. For every version, a patch that is read has a source line exactly when
  the version is below 11, and the section and the offset of the program counter
  exactly when the version is 14 or more, and the bytes read for it are its name, the
  four bytes of the line below version 11, the offset, the eight bytes of the program
  counter from version 14 on, the kind, the length and the expression. So it is for
  every patch of a file that is parsed, at the version of the file, which is one of
  6, 10, 11, 13 and 14.
\<close>

theorem patch_fields_version_gated:
  "(parse_patch obj_ver f = Return (p, f') \<longrightarrow>
      version_gated obj_ver p \<and> length f = patch_bytes obj_ver p + length f')
   \<and> (parse_bytes content = Return (Some ob, rest) \<longrightarrow>
        obj_version ob \<in> {6, 10, 11, 13, 14} \<and>
        (\<forall>s \<in> set (obj_sections ob). \<forall>patches. sec_patches s = Some patches \<longrightarrow>
           (\<forall>p \<in> set patches. version_gated (obj_version ob) p)))"
  using parse_patch_Return [of obj_ver f p f'] parse_bytes_Return(1,3) [of content ob rest]
  unfolding version_gated_def by blast

lemma parse_example_patch_14:
  "parse_patch 14 example_patch_14 =
     Return (\<lparr>patch_filename = ''p'', patch_line = None, patch_offset = 2,
               patch_pcsectionid = Some 3, patch_pcoffset = Some 4, patch_type = BYTE,
               patch_rpn = [CHR 0x05]\<rparr>, [])"
  by (simp add: example_patch_14_def parse_defs)

theorem patch_fields_version_gated_witness:
  "parse_patch 14 example_patch_14 =
     Return (\<lparr>patch_filename = ''p'', patch_line = None, patch_offset = 2,
               patch_pcsectionid = Some 3, patch_pcoffset = Some 4, patch_type = BYTE,
               patch_rpn = [CHR 0x05]\<rparr>, [])
   \<and> version_gated 14
        \<lparr>patch_filename = ''p'', patch_line = None, patch_offset = 2,
           patch_pcsectionid = Some 3, patch_pcoffset = Some 4, patch_type = BYTE,
           patch_rpn = [CHR 0x05]\<rparr>
   \<and> length example_patch_14 = 20
   \<and> parse_bytes example_b = Return (Some example_obj_b, [])
   \<and> obj_version example_obj_b = 6
   \<and> list_all (\<lambda>s. case sec_patches s of None \<Rightarrow> True
                   | Some patches \<Rightarrow> list_all (version_gated 6) patches)
        (obj_sections example_obj_b)"
  using patch_fields_version_gated
    [of 14 example_patch_14
      "\<lparr>patch_filename = ''p'', patch_line = None, patch_offset = 2,
         patch_pcsectionid = Some 3, patch_pcoffset = Some 4, patch_type = BYTE,
         patch_rpn = [CHR 0x05]\<rparr>"
      "[]" example_b example_obj_b "[]"]
  by (simp add: parse_example_patch_14 parse_bytes_example_b)
     (simp add: example_patch_14_def example_obj_b_def example_sect_def version_gated_def)

text \<open>
  Claim C8. When the analysis of all the files returns and the expression of a patch
  of some input file refers to an import or an export named \<open>name\<close>, the name is not in
  the output, whatever the other files do with it: \<open>globalsyms\<close> is one dictionary for
  all the files. The case of the claim is a file that imports \<^verbatim>\<open>X\<close> and never refers
  to it, followed by a file that exports \<^verbatim>\<open>X\<close> and refers to it.
\<close>

theorem referenced_export_not_reported:
  assumes "main fs argv = (out, Return ())"
      and "arguments argv = Return (just_dump, filenames)"
      and "filename \<in> set filenames"
      and "parse_object fs filename = Return (Some ob)"
      and "references ob name"
  shows "name \<notin> set out"
proof -
  from assms(1) obtain filenames' g where
    a: "arguments argv = Return (False, filenames')" and
    f: "file_loop False fs filenames' [] [] = ([], Return g)" and
    r: "out = report g"
    by (rule main_Return)
  from a assms(2) have "filenames' = filenames" by simp
  with f assms(3-5) have "positive g name"
    by (auto intro: file_loop_references simp: nonneg_def)
  with r show ?thesis by (simp add: positive_not_reported)
qed

theorem referenced_export_not_reported_witness:
  "main example_fs [''unusedsymbols.py'', ''a.o'', ''b.o''] = ([''Y''], Return ())
   \<and> parse_object example_fs ''a.o'' = Return (Some example_obj_a)
   \<and> sym_type (obj_symbols example_obj_a ! 0) = IMPORT
   \<and> sym_name (obj_symbols example_obj_a ! 0) = ''X''
   \<and> \<not> references example_obj_a ''X''
   \<and> parse_object example_fs ''b.o'' = Return (Some example_obj_b)
   \<and> sym_type (obj_symbols example_obj_b ! 0) = EXPORT
   \<and> sym_name (obj_symbols example_obj_b ! 0) = ''X''
   \<and> references example_obj_b ''X''
   \<and> ''X'' \<notin> set [''Y'']"
  using referenced_export_not_reported
    [OF example_run example_arguments _ parse_example_b example_references]
  by (simp add: example_run parse_example_a parse_example_b example_references
      example_no_reference)
     (simp add: example_obj_a_def example_obj_b_def)

text \<open>
  Claim C9. The expressions of the assertions do not reach the counts: changing the
  assertions of a parsed file changes nothing in what the counting of the file
  returns, and two files with the same symbol table and the same patch expressions in
  their ROMX and ROM0 sections are counted alike.
\<close>

theorem assertions_not_counted:
  "(\<forall>assertions. count_object (ob\<lparr>obj_assertions := assertions\<rparr>) globalsyms
       = count_object ob globalsyms)
   \<and> (obj_symbols ob' = obj_symbols ob
        \<and> patch_expressions (obj_sections ob') = patch_expressions (obj_sections ob)
      \<longrightarrow> count_object ob' globalsyms = count_object ob globalsyms)"
  by (simp add: count_object_def section_loop_scan_sections)

theorem assertions_not_counted_witness:
  "obj_symbols (example_obj_b\<lparr>obj_version := 13, obj_assertions := Some []\<rparr>)
     = obj_symbols example_obj_b
   \<and> patch_expressions (obj_sections (example_obj_b\<lparr>obj_version := 13, obj_assertions := Some []\<rparr>))
     = patch_expressions (obj_sections example_obj_b)
   \<and> count_object (example_obj_b\<lparr>obj_version := 13, obj_assertions := Some []\<rparr>) []
     = count_object example_obj_b []"
  using assertions_not_counted
    [of example_obj_b "[]" "example_obj_b\<lparr>obj_version := 13, obj_assertions := Some []\<rparr>"]
  by simp

text \<open>
  Claim C10. The loop over an expression terminates: for every buffer it returns or
  raises. At a \<^verbatim>\<open>0x51\<close> that a zero byte follows before the end of the buffer, the
  pass through the body completes with the cursor after that zero byte, inside the
  buffer or at its end. Every pass that completes moves the cursor forward by at least
  one byte, and when the loop returns the cursor has reached the length of the buffer.
  A string with no zero byte does not make the loop run for ever either: indexing past
  the end raises \<^verbatim>\<open>IndexError\<close>.
\<close>

theorem rpn_loop_terminates:
  "(\<exists>r. rpn_loop symbols rpn pos localsyms globalsyms = Some r)
   \<and> ((of_char (rpn ! pos) :: nat) = 0x51 \<and> CHR 0x00 \<in> set (drop (pos + 1) rpn) \<longrightarrow>
        (\<exists>pos'. rpn_step symbols rpn pos localsyms globalsyms = Return (pos', localsyms, globalsyms)
           \<and> pos + 2 \<le> pos' \<and> pos' \<le> length rpn))
   \<and> (\<forall>pos' localsyms' globalsyms'.
        rpn_step symbols rpn pos localsyms globalsyms = Return (pos', localsyms', globalsyms')
        \<longrightarrow> pos < pos')
   \<and> (\<forall>pos' localsyms' globalsyms'.
        rpn_loop symbols rpn pos localsyms globalsyms = Return (pos', localsyms', globalsyms')
        \<longrightarrow> length rpn \<le> pos')"
  using rpn_loop_total [of symbols rpn pos localsyms globalsyms]
    rpn_step_string [of rpn pos symbols localsyms globalsyms]
  by (auto dest: rpn_step_Return rpn_loop_Return)

theorem rpn_loop_terminates_witness:
  "(\<exists>r. rpn_loop (obj_symbols example_obj_b) example_rpn 15 [(''L'', 1)] [(''X'', 1), (''Y'', 0)]
          = Some r)
   \<and> (of_char (example_rpn ! 15) :: nat) = 0x51
   \<and> CHR 0x00 \<in> set (drop (15 + 1) example_rpn)
   \<and> rpn_step (obj_symbols example_obj_b) example_rpn 15 [(''L'', 1)] [(''X'', 1), (''Y'', 0)]
       = Return (18, [(''L'', 1)], [(''X'', 1), (''Y'', 0)])
   \<and> (15::nat) < 18
   \<and> rpn_loop (obj_symbols example_obj_b) example_rpn 15 [(''L'', 1)] [(''X'', 1), (''Y'', 0)]
       = Return (19, [(''L'', 1)], [(''X'', 1), (''Y'', 0)])
   \<and> length example_rpn \<le> 19"
  using rpn_loop_terminates
    [of "obj_symbols example_obj_b" example_rpn 15 "[(''L'', 1)]" "[(''X'', 1), (''Y'', 0)]"]
  by (simp add: rpn_step_example_string)
     (simp add: example_obj_b_def example_rpn_def count_defs)

end
